theory Spec2Isabelle
  imports Main "HOL-Library.Word"
begin

unbundle bit_operations_syntax

section \<open>Data model\<close>

text \<open>
  An embedding of \<^verbatim>\<open>src/storage/buffer_manager.cpp\<close>.  It is the sequential
  semantics of the buffer manager: every operation runs to completion before the
  next one starts, so the mutexes of the source are not represented, and the
  eviction queue is a first-in first-out list.

  \<^verbatim>\<open>idx_t\<close> is an unsigned 64-bit word, whose arithmetic wraps around.  A
  \<^verbatim>\<open>shared_ptr<BlockHandle>\<close> is an index into the list of handle objects, and a
  \<^verbatim>\<open>weak_ptr\<close> is such an index too: it can be locked exactly while the object
  at that index has not been destroyed.  An operation returns its value or the way
  it failed, together with the manager as it is then.  A \<^verbatim>\<open>D_ASSERT\<close> is
  checked: where the source asserts a condition that does not hold, the
  operation fails.
\<close>

type_synonym idx_t = "64 word"
type_synonym block_id_t = int
type_synonym data_t = "8 word"
type_synonym handle_ptr = nat

text \<open>The file \<^verbatim>\<open>{temp_directory}/{id}.block\<close>, kept as the pair of its two parts.\<close>
type_synonym path = "string \<times> block_id_t"

datatype BlockState = BLOCK_UNLOADED | BLOCK_LOADED

text \<open>
  Every way an operation of the source can fail: the three exception classes it
  throws, an error of the file system, a failed \<^verbatim>\<open>D_ASSERT\<close>, and the
  dereference of a null or expired pointer.
\<close>
datatype error =
    OutOfRangeException
  | Exception
  | NotImplementedException
  | IOException
  | AssertionFailure
  | NullPointer

text \<open>
  The constants of \<^verbatim>\<open>Storage::\<close> and \<^verbatim>\<open>MAXIMUM_BLOCK\<close> are declared in headers
  that are not part of the sources; they are parameters of every definition.
\<close>
record Storage =
  BLOCK_SIZE :: idx_t
  BLOCK_HEADER_SIZE :: idx_t
  BLOCK_ALLOC_SIZE :: idx_t
  MAXIMUM_BLOCK :: block_id_t

text \<open>A \<^verbatim>\<open>FileBuffer\<close> (a \<^verbatim>\<open>Block\<close> or a \<^verbatim>\<open>ManagedBuffer\<close>): its size and its bytes.\<close>
record FileBuffer =
  buf_size :: idx_t
  buf_data :: "data_t list"
  buf_id :: block_id_t
  buf_can_destroy :: bool

text \<open>
  The fields of \<^verbatim>\<open>BlockHandle\<close>, as the source uses them.  Modelled from the spec: the
  types of \<open>readers\<close> (a non-negative pin count) and of the block ids (integers),
  which the header declares and the sources do not show.
\<close>
record BlockHandle =
  readers :: nat
  block_id :: block_id_t
  state :: BlockState
  buffer :: "FileBuffer option"
  eviction_timestamp :: idx_t
  can_destroy :: bool
  memory_usage :: idx_t

record BufferEvictionNode =
  handle :: handle_ptr
  timestamp :: idx_t

text \<open>
  The fields of \<^verbatim>\<open>BufferManager\<close>.  \<open>heap\<close> holds the handle objects by address,
  \<open>None\<close> once destroyed; \<open>files\<close> is the file system and \<open>block_manager\<close> the
  contents of the persistent blocks, both reached through \<open>db\<close> in the source.
\<close>
record BufferManager =
  current_memory :: idx_t
  maximum_memory :: idx_t
  temp_directory :: string
  temp_directory_handle :: "string option"
  queue :: "BufferEvictionNode list"
  temporary_id :: block_id_t
  blocks :: "block_id_t \<rightharpoonup> handle_ptr"
  heap :: "BlockHandle option list"
  files :: "path \<rightharpoonup> data_t list"
  block_manager :: "block_id_t \<Rightarrow> data_t list"

type_synonym 'a result = "(error + 'a) \<times> BufferManager"

text \<open>Dereferencing a handle pointer; \<open>None\<close> when the object has been destroyed.\<close>
definition lookup :: "BufferManager \<Rightarrow> handle_ptr \<Rightarrow> BlockHandle option" where
  "lookup s p = (if p < length (heap s) then heap s ! p else None)"

definition store :: "handle_ptr \<Rightarrow> BlockHandle \<Rightarrow> BufferManager \<Rightarrow> BufferManager" where
  "store p h s = s\<lparr>heap := (heap s)[p := Some h]\<rparr>"

text \<open>\<^verbatim>\<open>make_shared<BlockHandle>\<close>: the new object gets the next free index.\<close>
definition make_shared :: "BlockHandle \<Rightarrow> BufferManager \<Rightarrow> handle_ptr \<times> BufferManager" where
  "make_shared h s = (length (heap s), s\<lparr>heap := heap s @ [Some h]\<rparr>)"

section \<open>Collaborators\<close>

text \<open>
  Modelled from the spec: the file handles of the file system
  (\<^verbatim>\<open>Read(dst, n, offset)\<close> and \<^verbatim>\<open>Write(src, n, offset)\<close>), which are not in the
  sources.  Writing past the end extends the file; reading past the end fails.
\<close>
definition file_Write :: "data_t list \<Rightarrow> data_t list \<Rightarrow> nat \<Rightarrow> data_t list" where
  "file_Write content src offset =
     take offset content @ replicate (offset - length content) 0 @ src
       @ drop (offset + length src) content"

definition file_Read :: "data_t list \<Rightarrow> nat \<Rightarrow> nat \<Rightarrow> data_t list option" where
  "file_Read content n offset =
     (if offset + n \<le> length content then Some (take n (drop offset content)) else None)"

text \<open>
  Modelled from the spec: the 8-byte little-endian image of an \<^verbatim>\<open>idx_t\<close>, which
  is what writing \<^verbatim>\<open>sizeof(idx_t)\<close> bytes from \<^verbatim>\<open>&buffer.size\<close> stores.
\<close>
fun encode_le :: "nat \<Rightarrow> idx_t \<Rightarrow> data_t list" where
  "encode_le 0 w = []"
| "encode_le (Suc n) w = ucast w # encode_le n (drop_bit 8 w)"

fun decode_le :: "data_t list \<Rightarrow> idx_t" where
  "decode_le [] = 0"
| "decode_le (b # bs) = ucast b OR push_bit 8 (decode_le bs)"

definition sizeof_idx_t :: nat where
  "sizeof_idx_t = 8"

text \<open>
  Modelled from the spec: the constructors and the \<^verbatim>\<open>Resize\<close>, \<^verbatim>\<open>Write\<close> and
  \<^verbatim>\<open>Read\<close> members of the buffer classes, which are not in the sources.  A
  managed buffer of \<open>alloc_size\<close> bytes holds that many payload bytes.
\<close>
definition ManagedBuffer :: "idx_t \<Rightarrow> bool \<Rightarrow> block_id_t \<Rightarrow> FileBuffer" where
  "ManagedBuffer alloc_size can_destroy_p bid =
     \<lparr>buf_size = alloc_size, buf_data = replicate (unat alloc_size) 0,
      buf_id = bid, buf_can_destroy = can_destroy_p\<rparr>"

definition Block :: "Storage \<Rightarrow> block_id_t \<Rightarrow> data_t list \<Rightarrow> FileBuffer" where
  "Block S bid content =
     \<lparr>buf_size = BLOCK_SIZE S, buf_data = content, buf_id = bid, buf_can_destroy = False\<rparr>"

definition Resize :: "FileBuffer \<Rightarrow> idx_t \<Rightarrow> FileBuffer" where
  "Resize b n =
     b\<lparr>buf_size := n,
       buf_data := take (unat n) (buf_data b) @ replicate (unat n - length (buf_data b)) 0\<rparr>"

definition FileBuffer_Write :: "FileBuffer \<Rightarrow> data_t list \<Rightarrow> nat \<Rightarrow> data_t list" where
  "FileBuffer_Write b content location = file_Write content (buf_data b) location"

definition FileBuffer_Read :: "FileBuffer \<Rightarrow> data_t list \<Rightarrow> nat \<Rightarrow> FileBuffer option" where
  "FileBuffer_Read b content location =
     (case file_Read content (unat (buf_size b)) location of
        None \<Rightarrow> None
      | Some bytes \<Rightarrow> Some (b\<lparr>buf_data := bytes\<rparr>))"

section \<open>BlockHandle\<close>

text \<open>The constructor of a persistent block handle (source lines 10-15).\<close>
definition BlockHandle_new :: "Storage \<Rightarrow> block_id_t \<Rightarrow> BlockHandle" where
  "BlockHandle_new S block_id_p =
     \<lparr>readers = 0, block_id = block_id_p, state = BLOCK_UNLOADED, buffer = None,
      eviction_timestamp = 0, can_destroy = False, memory_usage = BLOCK_ALLOC_SIZE S\<rparr>"

text \<open>The constructor of an in-memory block handle (source lines 17-24).\<close>
definition BlockHandle_new_memory ::
  "Storage \<Rightarrow> block_id_t \<Rightarrow> FileBuffer \<Rightarrow> bool \<Rightarrow> idx_t \<Rightarrow> error + BlockHandle" where
  "BlockHandle_new_memory S block_id_p buffer_p can_destroy_p alloc_size =
     (if alloc_size < BLOCK_SIZE S then Inl AssertionFailure
      else Inr \<lparr>readers = 0, block_id = block_id_p, state = BLOCK_LOADED,
                buffer = Some buffer_p, eviction_timestamp = 0,
                can_destroy = can_destroy_p,
                memory_usage = alloc_size + BLOCK_HEADER_SIZE S\<rparr>)"

text \<open>\<^verbatim>\<open>BlockHandle::CanUnload\<close> (source lines 79-96).\<close>
definition CanUnload :: "Storage \<Rightarrow> BufferManager \<Rightarrow> BlockHandle \<Rightarrow> bool" where
  "CanUnload S s h =
     (if state h = BLOCK_UNLOADED then False
      else if readers h > 0 then False
      else if block_id h \<ge> MAXIMUM_BLOCK S \<and> \<not> can_destroy h \<and> temp_directory s = []
        then False
      else True)"

text \<open>\<^verbatim>\<open>BufferEvictionNode::CanUnload\<close> (source lines 107-113).\<close>
definition node_CanUnload ::
  "Storage \<Rightarrow> BufferManager \<Rightarrow> BufferEvictionNode \<Rightarrow> BlockHandle \<Rightarrow> bool" where
  "node_CanUnload S s node h =
     (if timestamp node \<noteq> eviction_timestamp h then False else CanUnload S s h)"

section \<open>Temporary files\<close>

definition GetTemporaryPath :: "BufferManager \<Rightarrow> block_id_t \<Rightarrow> path" where
  "GetTemporaryPath s bid = (temp_directory s, bid)"

text \<open>\<^verbatim>\<open>BufferManager::RequireTemporaryDirectory\<close> (source lines 328-339).\<close>
definition RequireTemporaryDirectory :: "BufferManager \<Rightarrow> unit result" where
  "RequireTemporaryDirectory s =
     (if temp_directory s = [] then (Inl Exception, s)
      else if temp_directory_handle s = None
        then (Inr (), s\<lparr>temp_directory_handle := Some (temp_directory s)\<rparr>)
      else (Inr (), s))"

text \<open>
  \<^verbatim>\<open>BufferManager::WriteTemporaryBuffer\<close> (source lines 341-352).  Opening with
  \<^verbatim>\<open>FILE_FLAGS_FILE_CREATE\<close> creates an empty file when there is none.
\<close>
definition WriteTemporaryBuffer :: "Storage \<Rightarrow> FileBuffer \<Rightarrow> BufferManager \<Rightarrow> unit result" where
  "WriteTemporaryBuffer S b s =
     (case RequireTemporaryDirectory s of
        (Inl e, s1) \<Rightarrow> (Inl e, s1)
      | (Inr _, s1) \<Rightarrow>
          if buf_size b < BLOCK_SIZE S then (Inl AssertionFailure, s1)
          else
            let path = GetTemporaryPath s1 (buf_id b);
                content = (case files s1 path of None \<Rightarrow> [] | Some c \<Rightarrow> c);
                content1 = file_Write content (encode_le sizeof_idx_t (buf_size b)) 0;
                content2 = FileBuffer_Write b content1 sizeof_idx_t
            in (Inr (), s1\<lparr>files := (files s1)(path \<mapsto> content2)\<rparr>))"

text \<open>\<^verbatim>\<open>BufferManager::ReadTemporaryBuffer\<close> (source lines 354-368).\<close>
definition ReadTemporaryBuffer :: "block_id_t \<Rightarrow> BufferManager \<Rightarrow> FileBuffer result" where
  "ReadTemporaryBuffer bid s =
     (if temp_directory s = [] then (Inl AssertionFailure, s)
      else if temp_directory_handle s = None then (Inl AssertionFailure, s)
      else
        case files s (GetTemporaryPath s bid) of
          None \<Rightarrow> (Inl IOException, s)
        | Some content \<Rightarrow>
            (case file_Read content sizeof_idx_t 0 of
               None \<Rightarrow> (Inl IOException, s)
             | Some header \<Rightarrow>
                 let alloc_size = decode_le header;
                     b = ManagedBuffer alloc_size False bid
                 in (case FileBuffer_Read b content sizeof_idx_t of
                       None \<Rightarrow> (Inl IOException, s)
                     | Some b' \<Rightarrow> (Inr b', s))))"

text \<open>\<^verbatim>\<open>BufferManager::DeleteTemporaryFile\<close> (source lines 370-379).\<close>
definition DeleteTemporaryFile :: "block_id_t \<Rightarrow> BufferManager \<Rightarrow> BufferManager" where
  "DeleteTemporaryFile bid s =
     (if temp_directory s = [] \<or> temp_directory_handle s = None then s
      else
        let path = GetTemporaryPath s bid
        in if files s path \<noteq> None then s\<lparr>files := (files s)(path := None)\<rparr> else s)"

section \<open>Loading and unloading a block\<close>

text \<open>
  \<^verbatim>\<open>BlockHandle::Load\<close> (source lines 37-59).  The result is the pin token: the
  handle it pins, or \<open>None\<close> for the null token.  Reading a persistent block
  asks the block manager, an external collaborator, for the bytes.
\<close>
definition Load :: "Storage \<Rightarrow> handle_ptr \<Rightarrow> BufferManager \<Rightarrow> handle_ptr option result" where
  "Load S p s =
     (case lookup s p of
        None \<Rightarrow> (Inl NullPointer, s)
      | Some h \<Rightarrow>
          if state h = BLOCK_LOADED then
            (if buffer h = None then (Inl AssertionFailure, s) else (Inr (Some p), s))
          else
            let h1 = h\<lparr>state := BLOCK_LOADED\<rparr>;
                s1 = store p h1 s
            in if block_id h1 < MAXIMUM_BLOCK S then
                 let block = Block S (block_id h1) (block_manager s1 (block_id h1))
                 in (Inr (Some p), store p (h1\<lparr>buffer := Some block\<rparr>) s1)
               else if can_destroy h1 then (Inr None, s1)
               else
                 (case ReadTemporaryBuffer (block_id h1) s1 of
                    (Inl e, s2) \<Rightarrow> (Inl e, s2)
                  | (Inr b, s2) \<Rightarrow> (Inr (Some p), store p (h1\<lparr>buffer := Some b\<rparr>) s2)))"

text \<open>\<^verbatim>\<open>BlockHandle::Unload\<close> (source lines 61-77).\<close>
definition Unload :: "Storage \<Rightarrow> handle_ptr \<Rightarrow> BufferManager \<Rightarrow> unit result" where
  "Unload S p s =
     (case lookup s p of
        None \<Rightarrow> (Inl NullPointer, s)
      | Some h \<Rightarrow>
          if state h = BLOCK_UNLOADED then (Inr (), s)
          else if \<not> CanUnload S s h then (Inl AssertionFailure, s)
          else if memory_usage h < BLOCK_SIZE S then (Inl AssertionFailure, s)
          else
            let h1 = h\<lparr>state := BLOCK_UNLOADED\<rparr>;
                s1 = store p h1 s
            in (case (if block_id h1 \<ge> MAXIMUM_BLOCK S \<and> \<not> can_destroy h1
                      then (case buffer h1 of
                              None \<Rightarrow> (Inl NullPointer, s1)
                            | Some b \<Rightarrow> WriteTemporaryBuffer S b s1)
                      else (Inr (), s1)) of
                  (Inl e, s2) \<Rightarrow> (Inl e, s2)
                | (Inr _, s2) \<Rightarrow>
                    let s3 = store p (h1\<lparr>buffer := None\<rparr>) s2
                    in (Inr (), s3\<lparr>current_memory := current_memory s3 - memory_usage h1\<rparr>)))"

section \<open>Eviction\<close>

text \<open>
  One turn of the loop of \<^verbatim>\<open>EvictBlocks\<close> after the dequeue (source lines
  267-284): lock the weak pointer, check the node, check it again under the
  handle's lock, unload.
\<close>
definition evict_node :: "Storage \<Rightarrow> BufferEvictionNode \<Rightarrow> BufferManager \<Rightarrow> unit result" where
  "evict_node S node s =
     (case lookup s (handle node) of
        None \<Rightarrow> (Inr (), s)
      | Some h \<Rightarrow>
          if \<not> node_CanUnload S s node h then (Inr (), s)
          else if \<not> node_CanUnload S s node h then (Inr (), s)
          else Unload S (handle node) s)"

text \<open>The \<^verbatim>\<open>while\<close> loop of \<^verbatim>\<open>EvictBlocks\<close> (source lines 261-286).\<close>
function EvictBlocks_loop :: "Storage \<Rightarrow> idx_t \<Rightarrow> idx_t \<Rightarrow> BufferManager \<Rightarrow> bool result" where
  "EvictBlocks_loop S extra_memory memory_limit s =
     (if current_memory s > memory_limit then
        (case queue s of
           [] \<Rightarrow> (Inr False, s\<lparr>current_memory := current_memory s - extra_memory\<rparr>)
         | node # rest \<Rightarrow>
             (case evict_node S node (s\<lparr>queue := rest\<rparr>) of
                (Inl e, s1) \<Rightarrow> (Inl e, s1)
              | (Inr _, s1) \<Rightarrow> EvictBlocks_loop S extra_memory memory_limit s1))
      else (Inr True, s))"
  by pat_completeness auto
termination
proof (relation "measure (\<lambda>(S, extra_memory, memory_limit, s). length (queue s))")
  show "wf (measure (\<lambda>(S, extra_memory, memory_limit, s). length (queue s)))"
    by simp
next
  fix S :: Storage and extra_memory memory_limit :: idx_t and s :: BufferManager
    and node rest x s1 u
  assume q: "queue s = node # rest"
    and e: "(x, s1) = evict_node S node (s\<lparr>queue := rest\<rparr>)"
  from e have "queue s1 = rest"
    by (auto simp: evict_node_def Unload_def WriteTemporaryBuffer_def
        RequireTemporaryDirectory_def store_def lookup_def Let_def
        split: option.splits if_splits prod.splits sum.splits)
  with q show "((S, extra_memory, memory_limit, s1), (S, extra_memory, memory_limit, s))
      \<in> measure (\<lambda>(S, extra_memory, memory_limit, s). length (queue s))"
    by simp
qed

declare EvictBlocks_loop.simps [simp del]

text \<open>\<^verbatim>\<open>BufferManager::EvictBlocks\<close> (source lines 258-287).\<close>
definition EvictBlocks :: "Storage \<Rightarrow> idx_t \<Rightarrow> idx_t \<Rightarrow> BufferManager \<Rightarrow> bool result" where
  "EvictBlocks S extra_memory memory_limit s =
     EvictBlocks_loop S extra_memory memory_limit
       (s\<lparr>current_memory := current_memory s + extra_memory\<rparr>)"

section \<open>BufferManager\<close>

text \<open>The constructor (source lines 149-152); the file system and the block manager are given.\<close>
definition BufferManager_new ::
  "Storage \<Rightarrow> string \<Rightarrow> idx_t \<Rightarrow> (path \<rightharpoonup> data_t list) \<Rightarrow> (block_id_t \<Rightarrow> data_t list)
     \<Rightarrow> BufferManager" where
  "BufferManager_new S tmp maximum_memory_p fs bm =
     \<lparr>current_memory = 0, maximum_memory = maximum_memory_p, temp_directory = tmp,
      temp_directory_handle = None, queue = [], temporary_id = MAXIMUM_BLOCK S,
      blocks = Map.empty, heap = [], files = fs, block_manager = bm\<rparr>"

text \<open>\<^verbatim>\<open>BufferManager::SetTemporaryDirectory\<close> (source lines 142-147).\<close>
definition SetTemporaryDirectory :: "string \<Rightarrow> BufferManager \<Rightarrow> unit result" where
  "SetTemporaryDirectory new_dir s =
     (if temp_directory_handle s \<noteq> None then (Inl NotImplementedException, s)
      else (Inr (), s\<lparr>temp_directory := new_dir\<rparr>))"

text \<open>Locking a weak pointer: it yields the pointer while the object is alive.\<close>
definition weak_lock :: "BufferManager \<Rightarrow> handle_ptr \<Rightarrow> handle_ptr option" where
  "weak_lock s p = (case lookup s p of None \<Rightarrow> None | Some _ \<Rightarrow> Some p)"

text \<open>\<^verbatim>\<open>BufferManager::RegisterBlock\<close> (source lines 157-174).\<close>
definition RegisterBlock ::
  "Storage \<Rightarrow> block_id_t \<Rightarrow> BufferManager \<Rightarrow> handle_ptr \<times> BufferManager" where
  "RegisterBlock S bid s =
     (case (case blocks s bid of None \<Rightarrow> None | Some entry \<Rightarrow> weak_lock s entry) of
        Some existing_ptr \<Rightarrow> (existing_ptr, s)
      | None \<Rightarrow>
          (case make_shared (BlockHandle_new S bid) s of
             (result, s1) \<Rightarrow> (result, s1\<lparr>blocks := (blocks s1)(bid \<mapsto> result)\<rparr>)))"

text \<open>\<^verbatim>\<open>BufferManager::RegisterMemory\<close> (source lines 176-189).\<close>
definition RegisterMemory ::
  "Storage \<Rightarrow> idx_t \<Rightarrow> bool \<Rightarrow> BufferManager \<Rightarrow> handle_ptr result" where
  "RegisterMemory S alloc_size can_destroy_p s =
     (case EvictBlocks S (alloc_size + BLOCK_HEADER_SIZE S) (maximum_memory s) s of
        (Inl e, s1) \<Rightarrow> (Inl e, s1)
      | (Inr ok, s1) \<Rightarrow>
          if \<not> ok then (Inl OutOfRangeException, s1)
          else
            let temp_id = temporary_id s1 + 1;
                s2 = s1\<lparr>temporary_id := temp_id\<rparr>;
                b = ManagedBuffer alloc_size can_destroy_p temp_id
            in (case BlockHandle_new_memory S temp_id b can_destroy_p alloc_size of
                  Inl e \<Rightarrow> (Inl e, s2)
                | Inr h \<Rightarrow> (case make_shared h s2 of (result, s3) \<Rightarrow> (Inr result, s3))))"

text \<open>\<^verbatim>\<open>BufferManager::Pin\<close> (source lines 216-245).\<close>
definition Pin :: "Storage \<Rightarrow> handle_ptr \<Rightarrow> BufferManager \<Rightarrow> handle_ptr option result" where
  "Pin S p s =
     (case lookup s p of
        None \<Rightarrow> (Inl NullPointer, s)
      | Some h \<Rightarrow>
          if state h = BLOCK_LOADED then
            Load S p (store p (h\<lparr>readers := readers h + 1\<rparr>) s)
          else
            let required_memory = memory_usage h
            in (case EvictBlocks S required_memory (maximum_memory s) s of
                  (Inl e, s1) \<Rightarrow> (Inl e, s1)
                | (Inr ok, s1) \<Rightarrow>
                    if \<not> ok then (Inl OutOfRangeException, s1)
                    else
                      (case lookup s1 p of
                         None \<Rightarrow> (Inl NullPointer, s1)
                       | Some h1 \<Rightarrow>
                           if state h1 = BLOCK_LOADED then
                             Load S p (store p (h1\<lparr>readers := readers h1 + 1\<rparr>) s1)
                           else if readers h1 \<noteq> 0 then (Inl AssertionFailure, s1)
                           else Load S p (store p (h1\<lparr>readers := 1\<rparr>) s1))))"

text \<open>\<^verbatim>\<open>BufferManager::Allocate\<close> (source lines 191-194).\<close>
definition Allocate :: "Storage \<Rightarrow> idx_t \<Rightarrow> BufferManager \<Rightarrow> handle_ptr option result" where
  "Allocate S alloc_size s =
     (case RegisterMemory S alloc_size True s of
        (Inl e, s1) \<Rightarrow> (Inl e, s1)
      | (Inr block, s1) \<Rightarrow> Pin S block s1)"

text \<open>
  \<^verbatim>\<open>BufferManager::ReAllocate\<close> (source lines 196-214).  \<open>required_memory\<close> is
  the 64-bit difference read as a signed number.
\<close>
definition ReAllocate :: "Storage \<Rightarrow> handle_ptr \<Rightarrow> idx_t \<Rightarrow> BufferManager \<Rightarrow> unit result" where
  "ReAllocate S p alloc_size s =
     (if alloc_size < BLOCK_SIZE S then (Inl AssertionFailure, s)
      else
        case lookup s p of
          None \<Rightarrow> (Inl NullPointer, s)
        | Some h \<Rightarrow>
            if readers h \<noteq> 1 then (Inl AssertionFailure, s)
            else
              let total_size = alloc_size + BLOCK_HEADER_SIZE S;
                  required_memory = total_size - memory_usage h
              in (case (if 0 < sint required_memory
                        then (case EvictBlocks S required_memory (maximum_memory s) s of
                                (Inl e, s1) \<Rightarrow> (Inl e, s1)
                              | (Inr ok, s1) \<Rightarrow>
                                  if \<not> ok then (Inl OutOfRangeException, s1)
                                  else (Inr (), s1))
                        else (Inr (), s)) of
                    (Inl e, s1) \<Rightarrow> (Inl e, s1)
                  | (Inr _, s1) \<Rightarrow>
                      (case lookup s1 p of
                         None \<Rightarrow> (Inl NullPointer, s1)
                       | Some h1 \<Rightarrow>
                           (case buffer h1 of
                              None \<Rightarrow> (Inl NullPointer, s1)
                            | Some b \<Rightarrow>
                                let s2 = store p (h1\<lparr>buffer := Some (Resize b alloc_size)\<rparr>) s1;
                                    s3 = (if sint required_memory < 0
                                          then s2\<lparr>current_memory :=
                                                   current_memory s2 + required_memory\<rparr>
                                          else s2)
                                in (Inr (),
                                    store p (h1\<lparr>buffer := Some (Resize b alloc_size),
                                                memory_usage := total_size\<rparr>) s3)))))"

text \<open>\<^verbatim>\<open>BufferManager::Unpin\<close> (source lines 247-256).\<close>
definition Unpin :: "handle_ptr \<Rightarrow> BufferManager \<Rightarrow> unit result" where
  "Unpin p s =
     (case lookup s p of
        None \<Rightarrow> (Inl NullPointer, s)
      | Some h \<Rightarrow>
          if \<not> readers h > 0 then (Inl AssertionFailure, s)
          else
            let h1 = h\<lparr>readers := readers h - 1\<rparr>
            in if readers h1 = 0 then
                 let h2 = h1\<lparr>eviction_timestamp := eviction_timestamp h1 + 1\<rparr>;
                     node = \<lparr>handle = p, timestamp = eviction_timestamp h2\<rparr>
                 in (Inr (), (store p h2 s)\<lparr>queue := queue s @ [node]\<rparr>)
               else (Inr (), store p h1 s))"

text \<open>\<^verbatim>\<open>BufferManager::UnregisterBlock\<close> (source lines 289-301).\<close>
definition UnregisterBlock ::
  "Storage \<Rightarrow> block_id_t \<Rightarrow> bool \<Rightarrow> BufferManager \<Rightarrow> BufferManager" where
  "UnregisterBlock S bid can_destroy_p s =
     (if bid \<ge> MAXIMUM_BLOCK S then
        (if \<not> can_destroy_p then DeleteTemporaryFile bid s else s)
      else s\<lparr>blocks := (blocks s)(bid := None)\<rparr>)"

text \<open>
  Dropping the last \<^verbatim>\<open>shared_ptr\<close> to a handle.  From that moment every weak
  pointer to the object has expired, in the registry and in the queue, and the
  object is handed to its destructor, which has not run yet.
\<close>
definition shared_ptr_release :: "handle_ptr \<Rightarrow> BufferManager \<Rightarrow> BlockHandle result" where
  "shared_ptr_release p s =
     (case lookup s p of
        None \<Rightarrow> (Inl NullPointer, s)
      | Some h \<Rightarrow> (Inr h, s\<lparr>heap := (heap s)[p := None]\<rparr>))"

text \<open>
  The destructor \<^verbatim>\<open>BlockHandle::~BlockHandle\<close> (source lines 26-35), run on the
  object \<open>h\<close> whose last reference was dropped.  It holds no lock from the expiry
  of the weak pointers to its call of \<open>UnregisterBlock\<close>, so other operations
  can run in between.
\<close>
definition BlockHandle_destructor ::
  "Storage \<Rightarrow> BlockHandle \<Rightarrow> BufferManager \<Rightarrow> BufferManager" where
  "BlockHandle_destructor S h s =
     (let s1 = (if state h = BLOCK_LOADED
                then s\<lparr>current_memory := current_memory s - memory_usage h\<rparr>
                else s)
      in UnregisterBlock S (block_id h) (can_destroy h) s1)"

text \<open>
  Dropping the last reference to a handle with nothing else running until its
  destructor has returned.
\<close>
definition BlockHandle_delete :: "Storage \<Rightarrow> handle_ptr \<Rightarrow> BufferManager \<Rightarrow> unit result" where
  "BlockHandle_delete S p s =
     (case shared_ptr_release p s of
        (Inl e, s1) \<Rightarrow> (Inl e, s1)
      | (Inr h, s1) \<Rightarrow> (Inr (), BlockHandle_destructor S h s1))"

text \<open>\<^verbatim>\<open>BufferManager::SetLimit\<close> (source lines 302-321).\<close>
definition SetLimit :: "Storage \<Rightarrow> idx_t \<Rightarrow> BufferManager \<Rightarrow> unit result" where
  "SetLimit S limit s =
     (case EvictBlocks S 0 limit s of
        (Inl e, s1) \<Rightarrow> (Inl e, s1)
      | (Inr ok, s1) \<Rightarrow>
          if \<not> ok then (Inl OutOfRangeException, s1)
          else
            let old_limit = maximum_memory s1;
                s2 = s1\<lparr>maximum_memory := limit\<rparr>
            in (case EvictBlocks S 0 limit s2 of
                  (Inl e, s3) \<Rightarrow> (Inl e, s3)
                | (Inr ok2, s3) \<Rightarrow>
                    if \<not> ok2 then (Inl OutOfRangeException, s3\<lparr>maximum_memory := old_limit\<rparr>)
                    else (Inr (), s3)))"

section \<open>Memory accounting\<close>

text \<open>The bytes a handle accounts against the budget: its \<open>memory_usage\<close> while loaded.\<close>
definition accounted :: "BlockHandle option \<Rightarrow> idx_t" where
  "accounted e =
     (case e of None \<Rightarrow> 0 | Some h \<Rightarrow> if state h = BLOCK_LOADED then memory_usage h else 0)"

text \<open>The sum of \<open>memory_usage\<close> over the loaded handles, in 64-bit arithmetic.\<close>
definition loaded_memory :: "BufferManager \<Rightarrow> idx_t" where
  "loaded_memory s = sum_list (map accounted (heap s))"

text \<open>
  Every handle of \<open>s'\<close> is the handle of \<open>s\<close>, or was loaded in \<open>s\<close> and is
  unloaded in \<open>s'\<close> with the same \<open>memory_usage\<close>.
\<close>
definition unloaded_or_same :: "BufferManager \<Rightarrow> BufferManager \<Rightarrow> bool" where
  "unloaded_or_same s s' =
     (\<forall>p. lookup s' p = lookup s p \<or>
          (\<exists>h h'. lookup s p = Some h \<and> lookup s' p = Some h' \<and>
                  state h = BLOCK_LOADED \<and> state h' = BLOCK_UNLOADED \<and>
                  memory_usage h' = memory_usage h))"

section \<open>Sequences of operations\<close>

text \<open>
  The operations a client can perform: the public methods of the buffer manager,
  setting the temporary directory, and dropping the last shared pointer to a
  handle, which runs its destructor.  Here each operation, the destructor
  included, has returned before the next one starts.
\<close>
datatype op =
    Op_RegisterBlock block_id_t
  | Op_RegisterMemory idx_t bool
  | Op_Allocate idx_t
  | Op_ReAllocate handle_ptr idx_t
  | Op_Pin handle_ptr
  | Op_Unpin handle_ptr
  | Op_EvictBlocks idx_t idx_t
  | Op_SetLimit idx_t
  | Op_SetTemporaryDirectory string
  | Op_delete handle_ptr

text \<open>Forgetting the value an operation returns.\<close>
definition discard :: "'a result \<Rightarrow> unit result" where
  "discard r = (case r of (Inl e, s) \<Rightarrow> (Inl e, s) | (Inr _, s) \<Rightarrow> (Inr (), s))"

fun exec :: "Storage \<Rightarrow> op \<Rightarrow> BufferManager \<Rightarrow> unit result" where
  "exec S (Op_RegisterBlock bid) s = (Inr (), snd (RegisterBlock S bid s))"
| "exec S (Op_RegisterMemory alloc_size can_destroy_p) s =
     discard (RegisterMemory S alloc_size can_destroy_p s)"
| "exec S (Op_Allocate alloc_size) s = discard (Allocate S alloc_size s)"
| "exec S (Op_ReAllocate p alloc_size) s = ReAllocate S p alloc_size s"
| "exec S (Op_Pin p) s = discard (Pin S p s)"
| "exec S (Op_Unpin p) s = Unpin p s"
| "exec S (Op_EvictBlocks extra_memory memory_limit) s =
     discard (EvictBlocks S extra_memory memory_limit s)"
| "exec S (Op_SetLimit limit) s = SetLimit S limit s"
| "exec S (Op_SetTemporaryDirectory new_dir) s = SetTemporaryDirectory new_dir s"
| "exec S (Op_delete p) s = BlockHandle_delete S p s"

text \<open>
  The states of a manager: the constructor's, and those after any operation,
  whether it returned or raised.
\<close>
inductive reachable :: "Storage \<Rightarrow> BufferManager \<Rightarrow> bool" for S :: Storage where
  reachable_new: "reachable S (BufferManager_new S tmp maximum_memory_p fs bm)"
| reachable_exec: "reachable S s \<Longrightarrow> reachable S (snd (exec S op s))"

text \<open>Running operations one after the other, whatever each of them answers.\<close>
fun run_all :: "Storage \<Rightarrow> op list \<Rightarrow> BufferManager \<Rightarrow> BufferManager" where
  "run_all S [] s = s"
| "run_all S (op # ops) s = run_all S ops (snd (exec S op s))"

text \<open>Running operations that all return; \<open>None\<close> as soon as one raises.\<close>
fun run :: "Storage \<Rightarrow> op list \<Rightarrow> BufferManager \<Rightarrow> BufferManager option" where
  "run S [] s = Some s"
| "run S (op # ops) s =
     (case exec S op s of (Inl e, s') \<Rightarrow> None | (Inr _, s') \<Rightarrow> run S ops s')"

section \<open>Invariants\<close>

text \<open>
  What an eviction may do to the handles: each one is unchanged, or was loaded
  without readers and is now unloaded, with everything but its state and buffer
  as before.
\<close>
definition evicted_from :: "BufferManager \<Rightarrow> BufferManager \<Rightarrow> bool" where
  "evicted_from s s' =
     (\<forall>p. lookup s' p = lookup s p \<or>
          (\<exists>h b. lookup s p = Some h \<and> state h = BLOCK_LOADED \<and> readers h = 0 \<and>
                 lookup s' p = Some (h\<lparr>state := BLOCK_UNLOADED, buffer := b\<rparr>)))"

text \<open>A handle with readers is loaded.\<close>
definition readers_loaded :: "BufferManager \<Rightarrow> bool" where
  "readers_loaded s =
     (\<forall>p h. lookup s p = Some h \<longrightarrow> readers h > 0 \<longrightarrow> state h = BLOCK_LOADED)"

text \<open>
  The registry and the live handles agree: a live handle with a persistent id is
  the registry's entry for that id, an entry points to an allocated object that,
  while alive, carries the entry's id, and temporary ids start at \<open>MAXIMUM_BLOCK\<close>.
\<close>
definition registered :: "Storage \<Rightarrow> BufferManager \<Rightarrow> bool" where
  "registered S s =
     ((\<forall>p h. lookup s p = Some h \<longrightarrow> block_id h < MAXIMUM_BLOCK S \<longrightarrow>
              blocks s (block_id h) = Some p) \<and>
      (\<forall>b p. blocks s b = Some p \<longrightarrow>
              p < length (heap s) \<and> (\<forall>h. lookup s p = Some h \<longrightarrow> block_id h = b)) \<and>
      MAXIMUM_BLOCK S \<le> temporary_id s)"

text \<open>The same objects with the same ids, and the same registry.\<close>
definition same_ids :: "BufferManager \<Rightarrow> BufferManager \<Rightarrow> bool" where
  "same_ids s s' =
     (length (heap s') = length (heap s) \<and> blocks s' = blocks s \<and>
      temporary_id s' = temporary_id s \<and>
      (\<forall>p. map_option block_id (lookup s' p) = map_option block_id (lookup s p)))"

text \<open>An object that is still alive carries the id it had.\<close>
definition ids_kept :: "BufferManager \<Rightarrow> BufferManager \<Rightarrow> bool" where
  "ids_kept s s' =
     (length (heap s) \<le> length (heap s') \<and>
      (\<forall>p h'. p < length (heap s) \<longrightarrow> lookup s' p = Some h' \<longrightarrow>
          (\<exists>h. lookup s p = Some h \<and> block_id h = block_id h')))"

text \<open>The sum of \<open>memory_usage\<close> over the loaded handles, as a natural number.\<close>
definition loaded_bytes :: "BufferManager \<Rightarrow> nat" where
  "loaded_bytes s = sum_list (map (\<lambda>e. unat (accounted e)) (heap s))"

definition usage_bounded :: "BufferManager \<Rightarrow> bool" where
  "usage_bounded s = (\<forall>p h. lookup s p = Some h \<longrightarrow> unat (memory_usage h) < 2 ^ 63)"

text \<open>
  The budget: \<open>current_memory\<close> is within \<open>maximum_memory\<close> and covers the loaded
  handles, and every byte count fits a signed 64-bit number.
\<close>
definition budget_inv :: "BufferManager \<Rightarrow> bool" where
  "budget_inv s =
     (current_memory s \<le> maximum_memory s \<and>
      loaded_bytes s \<le> unat (current_memory s) \<and>
      unat (maximum_memory s) < 2 ^ 63 \<and>
      usage_bounded s \<and> readers_loaded s)"

text \<open>
  The calls whose byte counts fit a signed 64-bit number, and whose limit, for a
  direct call of \<open>EvictBlocks\<close>, is at most \<open>maximum_memory\<close>.
\<close>
definition admissible :: "Storage \<Rightarrow> BufferManager \<Rightarrow> op \<Rightarrow> bool" where
  "admissible S s op =
     (case op of
        Op_RegisterMemory alloc_size _ \<Rightarrow> unat alloc_size + unat (BLOCK_HEADER_SIZE S) < 2 ^ 63
      | Op_Allocate alloc_size \<Rightarrow> unat alloc_size + unat (BLOCK_HEADER_SIZE S) < 2 ^ 63
      | Op_ReAllocate _ alloc_size \<Rightarrow> unat alloc_size + unat (BLOCK_HEADER_SIZE S) < 2 ^ 63
      | Op_EvictBlocks extra_memory memory_limit \<Rightarrow>
          unat extra_memory < 2 ^ 63 \<and> memory_limit \<le> maximum_memory s
      | Op_SetLimit limit \<Rightarrow> unat limit < 2 ^ 63
      | _ \<Rightarrow> True)"

fun admissible_run :: "Storage \<Rightarrow> op list \<Rightarrow> BufferManager \<Rightarrow> bool" where
  "admissible_run S [] s = True"
| "admissible_run S (op # ops) s =
     (admissible S s op \<and> admissible_run S ops (snd (exec S op s)))"

section \<open>Small instances\<close>

text \<open>
  A storage layout with small numbers, and managers built with the operations
  above, on which the theorems below are instantiated.
\<close>
definition small_Storage :: Storage where
  "small_Storage =
     \<lparr>BLOCK_SIZE = 4, BLOCK_HEADER_SIZE = 2, BLOCK_ALLOC_SIZE = 6, MAXIMUM_BLOCK = 1000\<rparr>"

definition new_manager :: "string \<Rightarrow> idx_t \<Rightarrow> BufferManager" where
  "new_manager tmp m = BufferManager_new small_Storage tmp m Map.empty (\<lambda>_. [])"

text \<open>Block 7 registered in a manager with room for one block.\<close>
definition registered_block :: BufferManager where
  "registered_block = snd (RegisterBlock small_Storage 7 (new_manager [] 6))"

text \<open>... then pinned once.\<close>
definition pinned_block :: BufferManager where
  "pinned_block = snd (Pin small_Storage 0 registered_block)"

text \<open>... then unpinned: the handle is loaded, has no reader and is queued with stamp 1.\<close>
definition unpinned_block :: BufferManager where
  "unpinned_block = snd (Unpin 0 pinned_block)"

text \<open>... then pinned and unpinned once more: the queue holds stamps 1 and 2.\<close>
definition twice_unpinned :: BufferManager where
  "twice_unpinned = snd (Unpin 0 (snd (Pin small_Storage 0 unpinned_block)))"

text \<open>A non-destroyable in-memory block of four bytes, pinned and unpinned, without a
  temporary directory.\<close>
definition unpinned_memory :: BufferManager where
  "unpinned_memory = snd (Unpin 0 (snd (Pin small_Storage 0
      (snd (RegisterMemory small_Storage 4 False (new_manager [] 100))))))"

text \<open>A managed buffer of four bytes.\<close>
definition four_bytes :: FileBuffer where
  "four_bytes = \<lparr>buf_size = 4, buf_data = [1, 2, 3, 4], buf_id = 1001, buf_can_destroy = False\<rparr>"

text \<open>
  A destroyable in-memory block of four bytes that was allocated, unpinned and then
  evicted: it is unloaded and its bytes are gone.
\<close>
definition evicted_destroyable :: BufferManager where
  "evicted_destroyable =
     snd (EvictBlocks small_Storage 0 0
       (snd (Unpin 0 (snd (Allocate small_Storage 4 (new_manager [] 6))))))"

text \<open>The registered block pinned, unpinned and evicted again.\<close>
definition evicted_block :: BufferManager where
  "evicted_block = snd (EvictBlocks small_Storage 0 0 unpinned_block)"

text \<open>
  The last reference to the handle of block 7 has been dropped: its weak pointers
  have expired and its destructor has not run yet.
\<close>
definition expired_block :: BufferManager where
  "expired_block = snd (shared_ptr_release 0 registered_block)"

text \<open>... then block 7 is registered again, which makes handle 1.\<close>
definition registered_again :: BufferManager where
  "registered_again = snd (RegisterBlock small_Storage 7 expired_block)"

text \<open>... and only then the destructor of the first handle runs.\<close>
definition late_destructor :: BufferManager where
  "late_destructor =
     BlockHandle_destructor small_Storage (BlockHandle_new small_Storage 7) registered_again"

section \<open>Basic facts\<close>

lemma not_BLOCK_UNLOADED [simp]: "(st \<noteq> BLOCK_UNLOADED) = (st = BLOCK_LOADED)"
  by (cases st) simp_all

lemma lookup_store [simp]:
  "lookup (store q h s) p = (if p = q \<and> q < length (heap s) then Some h else lookup s p)"
  by (auto simp: lookup_def store_def)

lemma lookup_heap_eq: "heap s' = heap s \<Longrightarrow> lookup s' p = lookup s p"
  by (simp add: lookup_def)

lemma lookup_Some_less: "lookup s p = Some h \<Longrightarrow> p < length (heap s)"
  by (simp add: lookup_def split: if_splits)

lemma lookup_update [simp]:
  "lookup (s\<lparr>current_memory := c\<rparr>) p = lookup s p"
  "lookup (s\<lparr>maximum_memory := m\<rparr>) p = lookup s p"
  "lookup (s\<lparr>queue := q\<rparr>) p = lookup s p"
  "lookup (s\<lparr>files := f\<rparr>) p = lookup s p"
  "lookup (s\<lparr>temp_directory := d\<rparr>) p = lookup s p"
  "lookup (s\<lparr>temp_directory_handle := t\<rparr>) p = lookup s p"
  "lookup (s\<lparr>temporary_id := i\<rparr>) p = lookup s p"
  "lookup (s\<lparr>blocks := b\<rparr>) p = lookup s p"
  by (simp_all add: lookup_def)

lemma store_fields [simp]:
  "current_memory (store p h s) = current_memory s"
  "maximum_memory (store p h s) = maximum_memory s"
  "temp_directory (store p h s) = temp_directory s"
  "temp_directory_handle (store p h s) = temp_directory_handle s"
  "queue (store p h s) = queue s"
  "temporary_id (store p h s) = temporary_id s"
  "blocks (store p h s) = blocks s"
  "files (store p h s) = files s"
  "block_manager (store p h s) = block_manager s"
  "length (heap (store p h s)) = length (heap s)"
  by (simp_all add: store_def)

lemma CanUnload_temp_directory:
  "temp_directory s' = temp_directory s \<Longrightarrow> CanUnload S s' h = CanUnload S s h"
  by (simp add: CanUnload_def)

lemma WriteTemporaryBuffer_frame:
  "current_memory (snd (WriteTemporaryBuffer S b s)) = current_memory s"
  "maximum_memory (snd (WriteTemporaryBuffer S b s)) = maximum_memory s"
  "temp_directory (snd (WriteTemporaryBuffer S b s)) = temp_directory s"
  "queue (snd (WriteTemporaryBuffer S b s)) = queue s"
  "temporary_id (snd (WriteTemporaryBuffer S b s)) = temporary_id s"
  "blocks (snd (WriteTemporaryBuffer S b s)) = blocks s"
  "heap (snd (WriteTemporaryBuffer S b s)) = heap s"
  "block_manager (snd (WriteTemporaryBuffer S b s)) = block_manager s"
  by (simp_all add: WriteTemporaryBuffer_def RequireTemporaryDirectory_def Let_def)

lemma WriteTemporaryBuffer_frameD:
  assumes "WriteTemporaryBuffer S b s = (r, s')"
  shows "current_memory s' = current_memory s" "maximum_memory s' = maximum_memory s"
    "temp_directory s' = temp_directory s" "queue s' = queue s"
    "temporary_id s' = temporary_id s" "blocks s' = blocks s" "heap s' = heap s"
    "block_manager s' = block_manager s" "lookup s' p = lookup s p"
  using WriteTemporaryBuffer_frame [of S b s] assms by (simp_all add: lookup_def)


lemma WriteTemporaryBuffer_state:
  "\<exists>f t. snd (WriteTemporaryBuffer S b s) = s\<lparr>files := f, temp_directory_handle := t\<rparr>"
proof -
  let ?s' = "snd (WriteTemporaryBuffer S b s)"
  have "?s' = s\<lparr>files := files ?s', temp_directory_handle := temp_directory_handle ?s'\<rparr>"
    by (rule BufferManager.equality) (simp_all add: WriteTemporaryBuffer_frame)
  then show ?thesis by blast
qed

lemma store_store [simp]: "store q h2 (store q h1 s) = store q h2 s"
  by (simp add: store_def)

lemma store_update:
  "store q h (s\<lparr>files := f, temp_directory_handle := t\<rparr>)
     = (store q h s)\<lparr>files := f, temp_directory_handle := t\<rparr>"
  by (simp add: store_def)

text \<open>What Unload does to the state, by outcome.\<close>
lemma Unload_cases:
  assumes "lookup s q = Some h"
  shows "(Unload S q s = (Inr (), s) \<and> state h = BLOCK_UNLOADED)
       \<or> (\<exists>e. Unload S q s = (Inl e, s) \<and> state h = BLOCK_LOADED)
       \<or> (\<exists>e f t. Unload S q s = (Inl e, (store q (h\<lparr>state := BLOCK_UNLOADED\<rparr>) s)\<lparr>files := f, temp_directory_handle := t\<rparr>)
             \<and> state h = BLOCK_LOADED \<and> CanUnload S s h)
       \<or> (\<exists>f t. Unload S q s =
             (Inr (), (store q (h\<lparr>state := BLOCK_UNLOADED, buffer := None\<rparr>) s)
                \<lparr>files := f, temp_directory_handle := t,
                 current_memory := current_memory s - memory_usage h\<rparr>)
             \<and> state h = BLOCK_LOADED \<and> CanUnload S s h \<and> BLOCK_SIZE S \<le> memory_usage h)"
proof (cases "state h")
  case BLOCK_UNLOADED
  with assms show ?thesis by (simp add: Unload_def)
next
  case BLOCK_LOADED
  let ?s1 = "store q (h\<lparr>state := BLOCK_UNLOADED\<rparr>) s"
  show ?thesis
  proof (cases "CanUnload S s h \<and> BLOCK_SIZE S \<le> memory_usage h")
    case False
    with assms BLOCK_LOADED show ?thesis by (auto simp: Unload_def)
  next
    case ok: True
    show ?thesis
    proof (cases "block_id h \<ge> MAXIMUM_BLOCK S \<and> \<not> can_destroy h")
      case False
      with assms BLOCK_LOADED ok
      have "Unload S q s =
             (Inr (), (store q (h\<lparr>state := BLOCK_UNLOADED, buffer := None\<rparr>) s)
                \<lparr>files := files s, temp_directory_handle := temp_directory_handle s,
                 current_memory := current_memory s - memory_usage h\<rparr>)"
        by (auto simp: Unload_def Let_def not_less store_def)
      with BLOCK_LOADED ok show ?thesis by blast
    next
      case spill: True
      show ?thesis
      proof (cases "buffer h")
        case None
        with spill assms BLOCK_LOADED ok
        have "Unload S q s =
               (Inl NullPointer, ?s1\<lparr>files := files s, temp_directory_handle := temp_directory_handle s\<rparr>)"
          by (auto simp: Unload_def Let_def not_less store_def)
        with BLOCK_LOADED ok show ?thesis by blast
      next
        case (Some b)
        obtain r s2 where w: "WriteTemporaryBuffer S b ?s1 = (r, s2)"
          by (cases "WriteTemporaryBuffer S b ?s1")
        from WriteTemporaryBuffer_state [of S b ?s1] w
        obtain f t where s2: "s2 = ?s1\<lparr>files := f, temp_directory_handle := t\<rparr>"
          by auto
        show ?thesis
        proof (cases r)
          case (Inl e)
          with Some spill assms BLOCK_LOADED ok w s2 show ?thesis
            by (auto simp: Unload_def Let_def not_less)
        next
          case (Inr u)
          with Some spill assms BLOCK_LOADED ok w s2 show ?thesis
            by (auto simp: Unload_def Let_def not_less store_update)
        qed
      qed
    qed
  qed
qed

lemma evict_node_cases:
  "evict_node S node s = (Inr (), s)
   \<or> (\<exists>h. lookup s (handle node) = Some h \<and> node_CanUnload S s node h
          \<and> evict_node S node s = Unload S (handle node) s)"
  by (auto simp: evict_node_def split: option.splits)

lemma evict_node_stale:
  "lookup s (handle node) = Some h \<Longrightarrow> timestamp node \<noteq> eviction_timestamp h
     \<Longrightarrow> evict_node S node s = (Inr (), s)"
  by (simp add: evict_node_def node_CanUnload_def)

lemma Unload_frame_all:
  "maximum_memory (snd (Unload S q s)) = maximum_memory s \<and>
   temp_directory (snd (Unload S q s)) = temp_directory s \<and>
   queue (snd (Unload S q s)) = queue s \<and>
   temporary_id (snd (Unload S q s)) = temporary_id s \<and>
   blocks (snd (Unload S q s)) = blocks s \<and>
   length (heap (snd (Unload S q s))) = length (heap s) \<and>
   block_manager (snd (Unload S q s)) = block_manager s"
proof (cases "lookup s q")
  case None
  then show ?thesis by (simp add: Unload_def)
next
  case (Some h)
  from Unload_cases [OF this, of S] show ?thesis
    by (elim disjE exE conjE) simp_all
qed

lemma Unload_frame [simp]:
  "maximum_memory (snd (Unload S q s)) = maximum_memory s"
  "temp_directory (snd (Unload S q s)) = temp_directory s"
  "queue (snd (Unload S q s)) = queue s"
  "temporary_id (snd (Unload S q s)) = temporary_id s"
  "blocks (snd (Unload S q s)) = blocks s"
  "length (heap (snd (Unload S q s))) = length (heap s)"
  "block_manager (snd (Unload S q s)) = block_manager s"
  by (simp_all add: Unload_frame_all)

lemma Unload_lookup_other:
  "p \<noteq> q \<Longrightarrow> lookup (snd (Unload S q s)) p = lookup s p"
proof (cases "lookup s q")
  case None
  then show ?thesis by (simp add: Unload_def)
next
  case (Some h)
  assume "p \<noteq> q"
  with Unload_cases [OF Some, of S] show ?thesis
    by (elim disjE exE conjE) simp_all
qed


lemma evict_node_frame [simp]:
  "maximum_memory (snd (evict_node S node s)) = maximum_memory s"
  "temp_directory (snd (evict_node S node s)) = temp_directory s"
  "queue (snd (evict_node S node s)) = queue s"
  "temporary_id (snd (evict_node S node s)) = temporary_id s"
  "blocks (snd (evict_node S node s)) = blocks s"
  "length (heap (snd (evict_node S node s))) = length (heap s)"
  "block_manager (snd (evict_node S node s)) = block_manager s"
  using evict_node_cases [of S node s] by auto

lemma evict_node_keeps:
  assumes "lookup s p = Some h" "\<not> CanUnload S s h"
  shows "lookup (snd (evict_node S node s)) p = Some h"
proof (cases "handle node = p")
  case True
  with assms show ?thesis by (simp add: evict_node_def node_CanUnload_def)
next
  case False
  with evict_node_cases [of S node s] assms show ?thesis
    by (auto simp: Unload_lookup_other)
qed

text \<open>A property kept by every turn of the loop is kept by the loop.\<close>
lemma EvictBlocks_loop_preserves:
  assumes "\<And>s node. Q s \<Longrightarrow> Q (snd (evict_node S node s))"
    and "\<And>s q. Q s \<Longrightarrow> Q (s\<lparr>queue := q\<rparr>)"
    and "\<And>s c. Q s \<Longrightarrow> Q (s\<lparr>current_memory := c\<rparr>)"
    and "Q s"
  shows "Q (snd (EvictBlocks_loop S extra_memory memory_limit s))"
  using assms
proof (induction S extra_memory memory_limit s rule: EvictBlocks_loop.induct)
  case (1 S extra_memory memory_limit s)
  note step = "1.prems"(1) and deq = "1.prems"(2) and mem = "1.prems"(3)
    and start = "1.prems"(4)
  show ?case
  proof (cases "memory_limit < current_memory s")
    case False
    with start show ?thesis by (simp add: EvictBlocks_loop.simps)
  next
    case over: True
    show ?thesis
    proof (cases "queue s")
      case Nil
      with over mem [OF start] show ?thesis by (simp add: EvictBlocks_loop.simps)
    next
      case (Cons node rest)
      obtain r s1 where e: "evict_node S node (s\<lparr>queue := rest\<rparr>) = (r, s1)"
        by (cases "evict_node S node (s\<lparr>queue := rest\<rparr>)")
      have "Q (snd (evict_node S node (s\<lparr>queue := rest\<rparr>)))"
        by (rule step [OF deq [OF start]])
      then have q1: "Q s1"
        by (simp only: e snd_conv)
      show ?thesis
      proof (cases r)
        case (Inl err)
        with over Cons e q1 show ?thesis by (simp add: EvictBlocks_loop.simps)
      next
        case (Inr u)
        with over Cons e have "EvictBlocks_loop S extra_memory memory_limit s
            = EvictBlocks_loop S extra_memory memory_limit s1"
          by (simp add: EvictBlocks_loop.simps)
        moreover have "Q (snd (EvictBlocks_loop S extra_memory memory_limit s1))"
          by (rule "1.IH" [OF over Cons e [symmetric] Inr step deq mem q1])
        ultimately show ?thesis by simp
      qed
    qed
  qed
qed

lemma EvictBlocks_preserves:
  assumes step: "\<And>s node. Q s \<Longrightarrow> Q (snd (evict_node S node s))"
    and deq: "\<And>s q. Q s \<Longrightarrow> Q (s\<lparr>queue := q\<rparr>)"
    and mem: "\<And>s c. Q s \<Longrightarrow> Q (s\<lparr>current_memory := c\<rparr>)"
    and start: "Q s"
  shows "Q (snd (EvictBlocks S extra_memory memory_limit s))"
  unfolding EvictBlocks_def
  by (rule EvictBlocks_loop_preserves [where Q = Q, OF step deq mem mem [OF start]])

lemma EvictBlocks_keeps:
  assumes "lookup s p = Some h" "\<not> CanUnload S s h"
  shows "lookup (snd (EvictBlocks S extra_memory memory_limit s)) p = Some h"
proof -
  let ?Q = "\<lambda>s'. lookup s' p = Some h \<and> temp_directory s' = temp_directory s"
  have "?Q (snd (EvictBlocks S extra_memory memory_limit s))"
  proof (rule EvictBlocks_preserves [where Q = ?Q])
    fix s' node assume "?Q s'"
    moreover from this assms have "\<not> CanUnload S s' h"
      by (simp add: CanUnload_temp_directory [of s' s])
    ultimately show "?Q (snd (evict_node S node s'))"
      by (simp add: evict_node_keeps)
  qed (use assms in simp_all)
  then show ?thesis by simp
qed

lemma EvictBlocks_frame [simp]:
  "maximum_memory (snd (EvictBlocks S e l s)) = maximum_memory s"
  "temp_directory (snd (EvictBlocks S e l s)) = temp_directory s"
  "temporary_id (snd (EvictBlocks S e l s)) = temporary_id s"
  "blocks (snd (EvictBlocks S e l s)) = blocks s"
  "length (heap (snd (EvictBlocks S e l s))) = length (heap s)"
  "block_manager (snd (EvictBlocks S e l s)) = block_manager s"
proof -
  show "maximum_memory (snd (EvictBlocks S e l s)) = maximum_memory s"
    by (rule EvictBlocks_preserves [where Q = "\<lambda>s'. maximum_memory s' = maximum_memory s"]) simp_all
  show "temp_directory (snd (EvictBlocks S e l s)) = temp_directory s"
    by (rule EvictBlocks_preserves [where Q = "\<lambda>s'. temp_directory s' = temp_directory s"]) simp_all
  show "temporary_id (snd (EvictBlocks S e l s)) = temporary_id s"
    by (rule EvictBlocks_preserves [where Q = "\<lambda>s'. temporary_id s' = temporary_id s"]) simp_all
  show "blocks (snd (EvictBlocks S e l s)) = blocks s"
    by (rule EvictBlocks_preserves [where Q = "\<lambda>s'. blocks s' = blocks s"]) simp_all
  show "length (heap (snd (EvictBlocks S e l s))) = length (heap s)"
    by (rule EvictBlocks_preserves [where Q = "\<lambda>s'. length (heap s') = length (heap s)"]) simp_all
  show "block_manager (snd (EvictBlocks S e l s)) = block_manager s"
    by (rule EvictBlocks_preserves [where Q = "\<lambda>s'. block_manager s' = block_manager s"]) simp_all
qed

text \<open>The loop answers true only below the limit.\<close>
lemma EvictBlocks_loop_True:
  "EvictBlocks_loop S extra_memory memory_limit s = (Inr True, s')
     \<Longrightarrow> current_memory s' \<le> memory_limit"
proof (induction S extra_memory memory_limit s rule: EvictBlocks_loop.induct)
  case (1 S extra_memory memory_limit s)
  show ?case
  proof (cases "memory_limit < current_memory s")
    case False
    with "1.prems" show ?thesis by (simp add: EvictBlocks_loop.simps)
  next
    case over: True
    show ?thesis
    proof (cases "queue s")
      case Nil
      with over "1.prems" show ?thesis by (simp add: EvictBlocks_loop.simps)
    next
      case (Cons node rest)
      obtain r s1 where e: "evict_node S node (s\<lparr>queue := rest\<rparr>) = (r, s1)"
        by (cases "evict_node S node (s\<lparr>queue := rest\<rparr>)")
      show ?thesis
      proof (cases r)
        case (Inl err)
        with over Cons e "1.prems" show ?thesis by (simp add: EvictBlocks_loop.simps)
      next
        case (Inr u)
        with over Cons e "1.prems" have "EvictBlocks_loop S extra_memory memory_limit s1 = (Inr True, s')"
          by (simp add: EvictBlocks_loop.simps)
        with "1.IH" [OF over Cons e [symmetric] Inr] show ?thesis by simp
      qed
    qed
  qed
qed

lemma EvictBlocks_True:
  "EvictBlocks S extra_memory memory_limit s = (Inr True, s') \<Longrightarrow> current_memory s' \<le> memory_limit"
  unfolding EvictBlocks_def by (rule EvictBlocks_loop_True)

text \<open>Evaluating the small instances.\<close>

lemmas eval_defs = small_Storage_def new_manager_def BufferManager_new_def RegisterBlock_def
  weak_lock_def make_shared_def BlockHandle_new_def Pin_def Load_def lookup_def store_def
  EvictBlocks_def EvictBlocks_loop.simps evict_node_def node_CanUnload_def CanUnload_def
  Unload_def Block_def Unpin_def Let_def

lemma registered_block_eq:
  "registered_block =
     \<lparr>current_memory = 0, maximum_memory = 6, temp_directory = [],
      temp_directory_handle = None, queue = [], temporary_id = 1000, blocks = [7 \<mapsto> 0],
      heap = [Some \<lparr>readers = 0, block_id = 7, state = BLOCK_UNLOADED, buffer = None,
                    eviction_timestamp = 0, can_destroy = False, memory_usage = 6\<rparr>],
      files = Map.empty, block_manager = (\<lambda>_. [])\<rparr>"
  by (simp add: registered_block_def eval_defs)

lemma pinned_block_eq:
  "pinned_block =
     \<lparr>current_memory = 6, maximum_memory = 6, temp_directory = [],
      temp_directory_handle = None, queue = [], temporary_id = 1000, blocks = [7 \<mapsto> 0],
      heap = [Some \<lparr>readers = 1, block_id = 7, state = BLOCK_LOADED,
                    buffer = Some \<lparr>buf_size = 4, buf_data = [], buf_id = 7,
                                   buf_can_destroy = False\<rparr>,
                    eviction_timestamp = 0, can_destroy = False, memory_usage = 6\<rparr>],
      files = Map.empty, block_manager = (\<lambda>_. [])\<rparr>"
  by (simp add: pinned_block_def registered_block_eq eval_defs)

lemma unpinned_block_eq:
  "unpinned_block =
     \<lparr>current_memory = 6, maximum_memory = 6, temp_directory = [],
      temp_directory_handle = None, queue = [\<lparr>handle = 0, timestamp = 1\<rparr>],
      temporary_id = 1000, blocks = [7 \<mapsto> 0],
      heap = [Some \<lparr>readers = 0, block_id = 7, state = BLOCK_LOADED,
                    buffer = Some \<lparr>buf_size = 4, buf_data = [], buf_id = 7,
                                   buf_can_destroy = False\<rparr>,
                    eviction_timestamp = 1, can_destroy = False, memory_usage = 6\<rparr>],
      files = Map.empty, block_manager = (\<lambda>_. [])\<rparr>"
  by (simp add: unpinned_block_def pinned_block_eq eval_defs)

lemma twice_unpinned_eq:
  "twice_unpinned =
     \<lparr>current_memory = 6, maximum_memory = 6, temp_directory = [],
      temp_directory_handle = None,
      queue = [\<lparr>handle = 0, timestamp = 1\<rparr>, \<lparr>handle = 0, timestamp = 2\<rparr>],
      temporary_id = 1000, blocks = [7 \<mapsto> 0],
      heap = [Some \<lparr>readers = 0, block_id = 7, state = BLOCK_LOADED,
                    buffer = Some \<lparr>buf_size = 4, buf_data = [], buf_id = 7,
                                   buf_can_destroy = False\<rparr>,
                    eviction_timestamp = 2, can_destroy = False, memory_usage = 6\<rparr>],
      files = Map.empty, block_manager = (\<lambda>_. [])\<rparr>"
  by (simp add: twice_unpinned_def unpinned_block_eq eval_defs)

lemma replicate_4: "replicate 4 x = [x, x, x, x]"
  by (simp add: numeral_eq_Suc)

lemmas eval_defs2 = eval_defs RegisterMemory_def ManagedBuffer_def BlockHandle_new_memory_def

lemma unpinned_memory_eq:
  "unpinned_memory =
     \<lparr>current_memory = 6, maximum_memory = 100, temp_directory = [],
      temp_directory_handle = None, queue = [\<lparr>handle = 0, timestamp = 1\<rparr>],
      temporary_id = 1001, blocks = Map.empty,
      heap = [Some \<lparr>readers = 0, block_id = 1001, state = BLOCK_LOADED,
                    buffer = Some \<lparr>buf_size = 4, buf_data = [0, 0, 0, 0], buf_id = 1001,
                                   buf_can_destroy = False\<rparr>,
                    eviction_timestamp = 1, can_destroy = False, memory_usage = 6\<rparr>],
      files = Map.empty, block_manager = (\<lambda>_. [])\<rparr>"
  by (simp add: unpinned_memory_def eval_defs2 replicate_4)

lemma evicted_destroyable_eq:
  "evicted_destroyable =
     \<lparr>current_memory = 0, maximum_memory = 6, temp_directory = [],
      temp_directory_handle = None, queue = [], temporary_id = 1001, blocks = Map.empty,
      heap = [Some \<lparr>readers = 0, block_id = 1001, state = BLOCK_UNLOADED, buffer = None,
                    eviction_timestamp = 1, can_destroy = True, memory_usage = 6\<rparr>],
      files = Map.empty, block_manager = (\<lambda>_. [])\<rparr>"
  by (simp add: evicted_destroyable_def Allocate_def eval_defs2 replicate_4)

section \<open>Unloading an unloaded block\<close>

text \<open>
  Claim C10.  Calling \<open>Unload\<close> on a handle whose state is already
  \<open>BLOCK_UNLOADED\<close> does not raise and returns the manager as it was: the
  handle's state, buffer, readers and eviction stamp and the manager's
  \<open>current_memory\<close> are all unchanged.
\<close>
theorem Unload_of_unloaded_is_noop:
  "lookup s p = Some h \<Longrightarrow> state h = BLOCK_UNLOADED \<Longrightarrow> Unload S p s = (Inr (), s)"
  by (simp add: Unload_def)

theorem Unload_of_unloaded_is_noop_witness:
  "lookup registered_block 0 = Some (BlockHandle_new small_Storage 7) \<and>
   state (BlockHandle_new small_Storage 7) = BLOCK_UNLOADED \<and>
   Unload small_Storage 0 registered_block = (Inr (), registered_block)"
proof -
  have l: "lookup registered_block 0 = Some (BlockHandle_new small_Storage 7)"
    by (simp add: registered_block_eq lookup_def BlockHandle_new_def small_Storage_def)
  have u: "state (BlockHandle_new small_Storage 7) = BLOCK_UNLOADED"
    by (simp add: BlockHandle_new_def)
  from l u Unload_of_unloaded_is_noop [OF l u, of small_Storage] show ?thesis
    by simp
qed

section \<open>The stamp filter\<close>

text \<open>
  Claim C5.  A node whose stamp differs from the current \<open>eviction_timestamp\<close>
  of its handle when it is dequeued is discarded: the turn of the loop that
  handles it does not call \<open>Unload\<close> and leaves the whole manager, hence the
  handle's state, buffer and readers, as it was; \<open>EvictBlocks\<close> goes on with the
  rest of the queue.
\<close>
theorem stale_node_is_discarded:
  assumes "lookup s (handle node) = Some h"
    and "timestamp node \<noteq> eviction_timestamp h"
  shows "evict_node S node s = (Inr (), s) \<and>
         (memory_limit < current_memory s \<and> queue s = node # rest \<longrightarrow>
            EvictBlocks_loop S extra_memory memory_limit s
              = EvictBlocks_loop S extra_memory memory_limit (s\<lparr>queue := rest\<rparr>))"
proof -
  have "evict_node S node (s\<lparr>queue := rest\<rparr>) = (Inr (), s\<lparr>queue := rest\<rparr>)"
    using assms by (simp add: evict_node_stale)
  then show ?thesis
    using assms by (simp add: evict_node_stale EvictBlocks_loop.simps [of S _ _ s])
qed

theorem stale_node_is_discarded_witness:
  "evict_node small_Storage \<lparr>handle = 0, timestamp = 1\<rparr> twice_unpinned
     = (Inr (), twice_unpinned) \<and>
   EvictBlocks_loop small_Storage 0 0 twice_unpinned
     = EvictBlocks_loop small_Storage 0 0
         (twice_unpinned\<lparr>queue := [\<lparr>handle = 0, timestamp = 2\<rparr>]\<rparr>)"
proof -
  let ?h = "\<lparr>readers = 0, block_id = 7, state = BLOCK_LOADED,
             buffer = Some \<lparr>buf_size = 4, buf_data = [], buf_id = 7, buf_can_destroy = False\<rparr>,
             eviction_timestamp = 2, can_destroy = False, memory_usage = 6\<rparr>"
  let ?node = "\<lparr>handle = 0, timestamp = 1\<rparr>"
  have l: "lookup twice_unpinned (handle ?node) = Some ?h"
    by (simp add: twice_unpinned_eq lookup_def)
  have t: "timestamp ?node \<noteq> eviction_timestamp ?h"
    by simp
  have q: "0 < current_memory twice_unpinned \<and>
           queue twice_unpinned = ?node # [\<lparr>handle = 0, timestamp = 2\<rparr>]"
    by (simp add: twice_unpinned_eq)
  from stale_node_is_discarded [OF l t, of small_Storage 0 "[\<lparr>handle = 0, timestamp = 2\<rparr>]" 0] q
  show ?thesis by simp
qed

section \<open>What can be unloaded\<close>

text \<open>
  Claim C6.  \<open>CanUnload\<close> answers false exactly when the handle is unloaded, or
  has a reader, or is an in-memory block (its id is at or above \<open>MAXIMUM_BLOCK\<close>)
  that cannot be destroyed while the manager's temporary directory is empty; and a
  handle for which it answers false is left as it is by \<open>EvictBlocks\<close>.
\<close>
theorem CanUnload_false_iff_never_evicted:
  "(CanUnload S s h = False \<longleftrightarrow>
      (state h = BLOCK_UNLOADED \<or> readers h > 0 \<or>
       (block_id h \<ge> MAXIMUM_BLOCK S \<and> can_destroy h = False \<and> temp_directory s = [])))
   \<and> (lookup s p = Some h \<and> CanUnload S s h = False \<longrightarrow>
        lookup (snd (EvictBlocks S extra_memory memory_limit s)) p = Some h)"
  by (auto simp: CanUnload_def [of S s h] EvictBlocks_keeps)

theorem CanUnload_false_iff_never_evicted_witness:
  "CanUnload small_Storage unpinned_memory
     \<lparr>readers = 0, block_id = 1001, state = BLOCK_LOADED,
      buffer = Some \<lparr>buf_size = 4, buf_data = [0, 0, 0, 0], buf_id = 1001,
                     buf_can_destroy = False\<rparr>,
      eviction_timestamp = 1, can_destroy = False, memory_usage = 6\<rparr> = False \<and>
   fst (EvictBlocks small_Storage 0 0 unpinned_memory) = Inr False \<and>
   lookup (snd (EvictBlocks small_Storage 0 0 unpinned_memory)) 0 =
     Some \<lparr>readers = 0, block_id = 1001, state = BLOCK_LOADED,
           buffer = Some \<lparr>buf_size = 4, buf_data = [0, 0, 0, 0], buf_id = 1001,
                          buf_can_destroy = False\<rparr>,
           eviction_timestamp = 1, can_destroy = False, memory_usage = 6\<rparr>"
proof -
  let ?h = "\<lparr>readers = 0, block_id = 1001, state = BLOCK_LOADED,
      buffer = Some \<lparr>buf_size = 4, buf_data = [0, 0, 0, 0], buf_id = 1001,
                     buf_can_destroy = False\<rparr>,
      eviction_timestamp = 1, can_destroy = False, memory_usage = 6\<rparr>"
  have l: "lookup unpinned_memory 0 = Some ?h"
    by (simp add: unpinned_memory_eq lookup_def)
  have c: "CanUnload small_Storage unpinned_memory ?h = False"
    by (simp add: unpinned_memory_eq CanUnload_def small_Storage_def)
  have f: "fst (EvictBlocks small_Storage 0 0 unpinned_memory) = Inr False"
    by (simp add: unpinned_memory_eq eval_defs)
  from CanUnload_false_iff_never_evicted [of small_Storage unpinned_memory ?h 0 0 0] l c f
  show ?thesis by simp
qed

section \<open>Changing the limit\<close>

lemma SetLimit_second_pass:
  "current_memory s \<le> limit \<Longrightarrow> EvictBlocks S 0 limit s = (Inr True, s)"
  by (simp add: EvictBlocks_def EvictBlocks_loop.simps not_less [symmetric])

text \<open>
  Claim C9.  When \<open>SetLimit limit\<close> raises the out-of-memory exception,
  \<open>maximum_memory\<close> is what it was before the call; when it returns normally,
  \<open>maximum_memory\<close> is the new limit and \<open>current_memory\<close> is at most that limit.
\<close>
theorem SetLimit_outcome:
  "(fst (SetLimit S limit s) = Inl OutOfRangeException \<longrightarrow>
      maximum_memory (snd (SetLimit S limit s)) = maximum_memory s)
   \<and> (fst (SetLimit S limit s) = Inr () \<longrightarrow>
        maximum_memory (snd (SetLimit S limit s)) = limit \<and>
        current_memory (snd (SetLimit S limit s)) \<le> limit)"
proof -
  obtain r s1 where e: "EvictBlocks S 0 limit s = (r, s1)"
    by (cases "EvictBlocks S 0 limit s")
  have m: "maximum_memory s1 = maximum_memory s"
    using EvictBlocks_frame(1) [of S 0 limit s] e by simp
  show ?thesis
  proof (cases r)
    case (Inl err)
    with e m show ?thesis by (simp add: SetLimit_def)
  next
    case (Inr ok)
    show ?thesis
    proof (cases ok)
      case False
      with Inr e m show ?thesis by (simp add: SetLimit_def)
    next
      case True
      with Inr e have c: "current_memory s1 \<le> limit"
        by (simp add: EvictBlocks_True)
      then have "EvictBlocks S 0 limit (s1\<lparr>maximum_memory := limit\<rparr>)
                   = (Inr True, s1\<lparr>maximum_memory := limit\<rparr>)"
        by (simp add: SetLimit_second_pass)
      with True Inr e c show ?thesis by (simp add: SetLimit_def Let_def)
    qed
  qed
qed

theorem SetLimit_outcome_witness:
  "fst (SetLimit small_Storage 0 pinned_block) = Inl OutOfRangeException \<and>
   maximum_memory (snd (SetLimit small_Storage 0 pinned_block)) = maximum_memory pinned_block \<and>
   fst (SetLimit small_Storage 10 pinned_block) = Inr () \<and>
   maximum_memory (snd (SetLimit small_Storage 10 pinned_block)) = 10 \<and>
   current_memory (snd (SetLimit small_Storage 10 pinned_block)) \<le> 10"
proof -
  have a: "fst (SetLimit small_Storage 0 pinned_block) = Inl OutOfRangeException"
    by (simp add: pinned_block_eq SetLimit_def eval_defs)
  have b: "fst (SetLimit small_Storage 10 pinned_block) = Inr ()"
    by (simp add: pinned_block_eq SetLimit_def eval_defs)
  from SetLimit_outcome [of small_Storage 0 pinned_block]
    SetLimit_outcome [of small_Storage 10 pinned_block] a b
  show ?thesis by simp
qed

section \<open>The reservation of EvictBlocks\<close>

lemma sum_list_map_update:
  fixes f :: "'a \<Rightarrow> 'b::ab_group_add"
  shows "p < length xs \<Longrightarrow>
    sum_list (map f (xs[p := y])) = sum_list (map f xs) - f (xs ! p) + f y"
proof (induction xs arbitrary: p)
  case Nil
  then show ?case by simp
next
  case (Cons x xs)
  then show ?case by (cases p) (simp_all add: algebra_simps)
qed

lemma loaded_memory_update [simp]:
  "loaded_memory (s\<lparr>current_memory := c\<rparr>) = loaded_memory s"
  "loaded_memory (s\<lparr>queue := q\<rparr>) = loaded_memory s"
  "loaded_memory (s\<lparr>files := f\<rparr>) = loaded_memory s"
  "loaded_memory (s\<lparr>temp_directory_handle := t\<rparr>) = loaded_memory s"
  by (simp_all add: loaded_memory_def)

lemma loaded_memory_store:
  "lookup s p = Some h \<Longrightarrow>
     loaded_memory (store p h' s) = loaded_memory s - accounted (Some h) + accounted (Some h')"
  by (auto simp: loaded_memory_def store_def lookup_def sum_list_map_update split: if_splits)

lemma Unload_accounting:
  assumes "Unload S q s = (Inr u, s')"
  shows "current_memory s' - loaded_memory s' = current_memory s - loaded_memory s"
proof (cases "lookup s q")
  case None
  with assms show ?thesis by (simp add: Unload_def)
next
  case (Some h)
  from Unload_cases [OF Some, of S] assms show ?thesis
    by (elim disjE exE conjE) (auto simp: loaded_memory_store [OF Some] accounted_def)
qed

lemma evict_node_accounting:
  assumes "evict_node S node s = (Inr u, s')"
  shows "current_memory s' - loaded_memory s' = current_memory s - loaded_memory s"
proof -
  from evict_node_cases [of S node s] assms
  have "s' = s \<or> Unload S (handle node) s = (Inr u, s')"
    by auto
  then show ?thesis
    by (auto dest: Unload_accounting)
qed

lemma EvictBlocks_loop_accounting:
  "EvictBlocks_loop S extra_memory memory_limit s = (Inr ok, s') \<Longrightarrow>
     current_memory s' - loaded_memory s'
       = current_memory s - loaded_memory s - (if ok then 0 else extra_memory)"
proof (induction S extra_memory memory_limit s rule: EvictBlocks_loop.induct)
  case (1 S extra_memory memory_limit s)
  show ?case
  proof (cases "memory_limit < current_memory s")
    case False
    with "1.prems" show ?thesis by (auto simp: EvictBlocks_loop.simps)
  next
    case over: True
    show ?thesis
    proof (cases "queue s")
      case Nil
      with over "1.prems" show ?thesis by (auto simp: EvictBlocks_loop.simps)
    next
      case (Cons node rest)
      obtain r s1 where e: "evict_node S node (s\<lparr>queue := rest\<rparr>) = (r, s1)"
        by (cases "evict_node S node (s\<lparr>queue := rest\<rparr>)")
      show ?thesis
      proof (cases r)
        case (Inl err)
        with over Cons e "1.prems" show ?thesis by (simp add: EvictBlocks_loop.simps)
      next
        case (Inr u)
        with over Cons e "1.prems"
        have l: "EvictBlocks_loop S extra_memory memory_limit s1 = (Inr ok, s')"
          by (simp add: EvictBlocks_loop.simps)
        from e Inr have "current_memory s1 - loaded_memory s1 = current_memory s - loaded_memory s"
          using evict_node_accounting [of S node "s\<lparr>queue := rest\<rparr>" u s1] by simp
        with "1.IH" [OF over Cons e [symmetric] Inr l] show ?thesis by simp
      qed
    qed
  qed
qed

lemma evict_node_unloaded_or_same:
  assumes "unloaded_or_same s s1"
  shows "unloaded_or_same s (snd (evict_node S node s1))"
proof -
  from evict_node_cases [of S node s1]
  consider "evict_node S node s1 = (Inr (), s1)"
    | h1 where "lookup s1 (handle node) = Some h1" "node_CanUnload S s1 node h1"
        "evict_node S node s1 = Unload S (handle node) s1"
    by blast
  then show ?thesis
  proof cases
    case 1
    with assms show ?thesis by simp
  next
    case 2
    let ?q = "handle node"
    from 2 have ld: "state h1 = BLOCK_LOADED"
      by (auto simp: node_CanUnload_def CanUnload_def split: if_splits)
    have other: "\<And>p. p \<noteq> ?q \<Longrightarrow> lookup (snd (Unload S ?q s1)) p = lookup s1 p"
      by (simp add: Unload_lookup_other)
    have at: "lookup (snd (Unload S ?q s1)) ?q = Some h1 \<or>
              (\<exists>h'. lookup (snd (Unload S ?q s1)) ?q = Some h' \<and> state h' = BLOCK_UNLOADED
                    \<and> memory_usage h' = memory_usage h1)"
      using Unload_cases [OF 2(1), of S] lookup_Some_less [OF 2(1)] 2(1)
      by (elim disjE exE conjE) simp_all
    show ?thesis
      unfolding unloaded_or_same_def
    proof
      fix p
      show "lookup (snd (evict_node S node s1)) p = lookup s p \<or>
          (\<exists>h h'. lookup s p = Some h \<and> lookup (snd (evict_node S node s1)) p = Some h' \<and>
                  state h = BLOCK_LOADED \<and> state h' = BLOCK_UNLOADED \<and>
                  memory_usage h' = memory_usage h)"
      proof (cases "p = ?q")
        case False
        with other [OF False] assms 2(3) show ?thesis
          by (simp add: unloaded_or_same_def)
      next
        case True
        from assms have "lookup s1 ?q = lookup s ?q \<or>
          (\<exists>h h'. lookup s ?q = Some h \<and> lookup s1 ?q = Some h' \<and>
                  state h = BLOCK_LOADED \<and> state h' = BLOCK_UNLOADED \<and>
                  memory_usage h' = memory_usage h)"
          by (simp add: unloaded_or_same_def)
        with 2(1) ld have "lookup s ?q = Some h1" by auto
        with at True 2(3) ld show ?thesis by auto
      qed
    qed
  qed
qed

lemma EvictBlocks_unloaded_or_same:
  "unloaded_or_same s (snd (EvictBlocks S extra_memory memory_limit s))"
proof (rule EvictBlocks_preserves [where Q = "unloaded_or_same s"])
  show "unloaded_or_same s s"
    by (simp add: unloaded_or_same_def)
qed (simp_all add: evict_node_unloaded_or_same, simp_all add: unloaded_or_same_def)

text \<open>
  Claim C3, as the source has it.  When \<open>EvictBlocks\<close> returns false it has taken
  back the reservation of \<open>extra_memory\<close> bytes, but the blocks it unloaded
  on the way stay unloaded: every handle is unchanged or went from loaded to
  unloaded with the same \<open>memory_usage\<close>, and \<open>current_memory\<close> after the call is
  \<open>current_memory\<close> before the call less the \<open>memory_usage\<close> of the handles the call
  unloaded (in 64-bit arithmetic).  It is unchanged when the call unloaded nothing.
\<close>
theorem EvictBlocks_false_rolls_back_reservation:
  assumes "EvictBlocks S extra_memory memory_limit s = (Inr False, s')"
  shows "unloaded_or_same s s'
         \<and> current_memory s' = current_memory s - (loaded_memory s - loaded_memory s')
         \<and> (heap s' = heap s \<longrightarrow> current_memory s' = current_memory s)"
proof -
  from assms have
    "current_memory s' - loaded_memory s'
       = current_memory (s\<lparr>current_memory := current_memory s + extra_memory\<rparr>)
         - loaded_memory (s\<lparr>current_memory := current_memory s + extra_memory\<rparr>)
         - (if False then 0 else extra_memory)"
    unfolding EvictBlocks_def by (rule EvictBlocks_loop_accounting)
  then have "current_memory s' - loaded_memory s' = current_memory s - loaded_memory s"
    by simp
  then have c: "current_memory s' = current_memory s - (loaded_memory s - loaded_memory s')"
    by (simp add: algebra_simps)
  moreover have "heap s' = heap s \<Longrightarrow> current_memory s' = current_memory s"
    using c by (simp add: loaded_memory_def)
  moreover have "unloaded_or_same s s'"
    using EvictBlocks_unloaded_or_same [of s S extra_memory memory_limit] assms by simp
  ultimately show ?thesis by blast
qed

theorem EvictBlocks_false_rolls_back_reservation_witness:
  "EvictBlocks small_Storage 100 50 unpinned_block
     = (Inr False, snd (EvictBlocks small_Storage 100 50 unpinned_block)) \<and>
   loaded_memory unpinned_block = 6 \<and>
   loaded_memory (snd (EvictBlocks small_Storage 100 50 unpinned_block)) = 0 \<and>
   current_memory (snd (EvictBlocks small_Storage 100 50 unpinned_block))
     = current_memory unpinned_block - (6 - 0) \<and>
   unloaded_or_same unpinned_block (snd (EvictBlocks small_Storage 100 50 unpinned_block))"
proof -
  have e: "EvictBlocks small_Storage 100 50 unpinned_block
     = (Inr False, snd (EvictBlocks small_Storage 100 50 unpinned_block))"
    by (simp add: unpinned_block_eq eval_defs)
  have l: "loaded_memory unpinned_block = 6"
      "loaded_memory (snd (EvictBlocks small_Storage 100 50 unpinned_block)) = 0"
    by (simp_all add: unpinned_block_eq eval_defs loaded_memory_def accounted_def)
  from EvictBlocks_false_rolls_back_reservation [OF e] e l show ?thesis
    by simp
qed

text \<open>
  Claim C3, as the spec states it, fails: with one loaded, unpinned block of 6
  bytes in the queue, \<open>EvictBlocks 100 50\<close> unloads the block, finds the queue
  empty, takes back the 100 bytes and returns false, leaving \<open>current_memory\<close> at
  0 where it was 6.
\<close>
theorem EvictBlocks_false_changes_current_memory:
  "fst (EvictBlocks small_Storage 100 50 unpinned_block) = Inr False \<and>
   current_memory (snd (EvictBlocks small_Storage 100 50 unpinned_block)) = 0 \<and>
   current_memory unpinned_block = 6"
  by (simp add: unpinned_block_eq eval_defs)

section \<open>Loading a destroyed block\<close>

lemma Load_destroyed:
  assumes "lookup s p = Some h" "state h = BLOCK_UNLOADED"
    "MAXIMUM_BLOCK S \<le> block_id h" "can_destroy h"
  shows "Load S p s = (Inr None, store p (h\<lparr>state := BLOCK_LOADED\<rparr>) s)"
  using assms by (simp add: Load_def Let_def)

text \<open>
  Claim C4 asks that a handle has a buffer exactly when it is loaded, also after
  \<open>Load\<close> has returned the null token for a destroyable in-memory block.  The
  source sets the state to \<open>BLOCK_LOADED\<close> before it looks at the block
  (\<open>Load_destroyed\<close>), so on the evicted block above \<open>Pin\<close> returns the null token
  and leaves the handle loaded, with one reader and without a buffer; the next
  \<open>Pin\<close> then fails the assertion of \<open>Load\<close> that a loaded handle has a buffer.
\<close>
theorem Pin_of_destroyed_block_is_loaded_without_buffer:
  "fst (Pin small_Storage 0 evicted_destroyable) = Inr None \<and>
   lookup (snd (Pin small_Storage 0 evicted_destroyable)) 0
     = Some \<lparr>readers = 1, block_id = 1001, state = BLOCK_LOADED, buffer = None,
              eviction_timestamp = 1, can_destroy = True, memory_usage = 6\<rparr> \<and>
   fst (Pin small_Storage 0 (snd (Pin small_Storage 0 evicted_destroyable)))
     = Inl AssertionFailure"
  by (simp add: evicted_destroyable_eq eval_defs)

section \<open>Temporary files\<close>

lemma length_encode_le [simp]: "length (encode_le n w) = n"
  by (induction n arbitrary: w) simp_all

lemma decode_encode_le: "decode_le (encode_le n w) = take_bit (8 * n) w"
proof (induction n arbitrary: w)
  case 0
  then show ?case by simp
next
  case (Suc n)
  show ?case
    by (rule bit_word_eqI) (auto simp: Suc bit_simps)
qed

lemma decode_encode_idx_t: "decode_le (encode_le sizeof_idx_t w) = w"
  by (simp add: decode_encode_le sizeof_idx_t_def take_bit_word_eq_self)

lemma file_Read_header:
  "length hdr = n \<Longrightarrow> file_Read (hdr @ rest) n 0 = Some hdr"
  by (simp add: file_Read_def)

lemma file_Read_payload:
  "length hdr = n \<Longrightarrow> length payload = m \<Longrightarrow>
     file_Read (hdr @ payload @ rest) m n = Some payload"
  by (simp add: file_Read_def)

lemma file_Write_header_payload:
  "length hdr = n \<Longrightarrow>
     file_Write (file_Write content hdr 0) payload n
       = hdr @ payload @ drop (n + length payload) (hdr @ drop n content)"
  by (simp add: file_Write_def)

text \<open>
  Claim C8.  Writing a managed buffer to its temporary file succeeds when a
  temporary directory is set, the buffer has at least \<open>BLOCK_SIZE\<close> bytes and holds
  as many payload bytes as its size says.  The file then starts with the 8-byte
  little-endian size followed by the payload, and reading the temporary buffer of
  that id back yields a buffer of the same size with the same payload bytes.
\<close>
theorem temporary_buffer_round_trip:
  assumes "temp_directory s \<noteq> []"
    and "BLOCK_SIZE S \<le> buf_size b"
    and "length (buf_data b) = unat (buf_size b)"
  shows "\<exists>s1 rest.
           WriteTemporaryBuffer S b s = (Inr (), s1) \<and>
           files s1 (GetTemporaryPath s1 (buf_id b))
             = Some (encode_le 8 (buf_size b) @ buf_data b @ rest) \<and>
           (\<exists>b'. ReadTemporaryBuffer (buf_id b) s1 = (Inr b', s1) \<and>
                 buf_size b' = buf_size b \<and> buf_data b' = buf_data b)"
proof -
  have "\<exists>s0. RequireTemporaryDirectory s = (Inr (), s0) \<and>
          temp_directory s0 = temp_directory s \<and> files s0 = files s \<and>
          temp_directory_handle s0 \<noteq> None"
    using assms(1) by (cases "temp_directory_handle s") (simp_all add: RequireTemporaryDirectory_def)
  then obtain s0 where r: "RequireTemporaryDirectory s = (Inr (), s0)"
    "temp_directory s0 = temp_directory s" "files s0 = files s"
    "temp_directory_handle s0 \<noteq> None"
    by blast
  let ?path = "GetTemporaryPath s (buf_id b)"
  let ?old = "case files s ?path of None \<Rightarrow> [] | Some c \<Rightarrow> c"
  let ?hdr = "encode_le sizeof_idx_t (buf_size b)"
  let ?rest = "drop (sizeof_idx_t + length (buf_data b)) (?hdr @ drop sizeof_idx_t ?old)"
  let ?content = "?hdr @ buf_data b @ ?rest"
  let ?s1 = "s0\<lparr>files := (files s0)(?path \<mapsto> ?content)\<rparr>"
  have p: "GetTemporaryPath s0 (buf_id b) = ?path"
    "\<And>f. GetTemporaryPath (s0\<lparr>files := f\<rparr>) (buf_id b) = ?path"
    using r by (simp_all add: GetTemporaryPath_def)
  have w: "WriteTemporaryBuffer S b s = (Inr (), ?s1)"
    using r(1) assms(2) p(1) r(3)
    by (simp add: WriteTemporaryBuffer_def Let_def not_less [symmetric] FileBuffer_Write_def
        file_Write_header_payload)
  have f: "files ?s1 (GetTemporaryPath ?s1 (buf_id b)) = Some ?content"
    by (simp add: p)
  have rd: "ReadTemporaryBuffer (buf_id b) ?s1
              = (Inr (ManagedBuffer (buf_size b) False (buf_id b)\<lparr>buf_data := buf_data b\<rparr>), ?s1)"
    using r(2,4) assms(1,3) f
    by (simp add: ReadTemporaryBuffer_def file_Read_header file_Read_payload decode_encode_idx_t
        FileBuffer_Read_def ManagedBuffer_def Let_def)
  show ?thesis
    using w f rd by (auto simp: sizeof_idx_t_def ManagedBuffer_def)
qed

theorem temporary_buffer_round_trip_witness:
  "temp_directory (new_manager ''tmp'' 6) \<noteq> [] \<and>
   BLOCK_SIZE small_Storage \<le> buf_size four_bytes \<and>
   length (buf_data four_bytes) = unat (buf_size four_bytes) \<and>
   (\<exists>s1 rest.
      WriteTemporaryBuffer small_Storage four_bytes (new_manager ''tmp'' 6) = (Inr (), s1) \<and>
      files s1 (GetTemporaryPath s1 (buf_id four_bytes))
        = Some (encode_le 8 (buf_size four_bytes) @ buf_data four_bytes @ rest) \<and>
      (\<exists>b'. ReadTemporaryBuffer (buf_id four_bytes) s1 = (Inr b', s1) \<and>
            buf_size b' = buf_size four_bytes \<and> buf_data b' = buf_data four_bytes))"
proof -
  have a: "temp_directory (new_manager ''tmp'' 6) \<noteq> []"
    by (simp add: new_manager_def BufferManager_new_def)
  have b: "BLOCK_SIZE small_Storage \<le> buf_size four_bytes"
    by (simp add: small_Storage_def four_bytes_def)
  have c: "length (buf_data four_bytes) = unat (buf_size four_bytes)"
    by (simp add: four_bytes_def)
  from temporary_buffer_round_trip [OF a b c] a b c show ?thesis
    by blast
qed

section \<open>Effects of loading and evicting\<close>

lemma discard_simps [simp]:
  "snd (discard r) = snd r"
  "(fst (discard r) = Inr ()) = (\<exists>x. fst r = Inr x)"
  "(fst (discard r) = Inl e) = (fst r = Inl e)"
  by (auto simp: discard_def split: prod.splits sum.splits)

lemma store_same: "lookup s p = Some h \<Longrightarrow> store p h s = s"
  by (simp add: store_def lookup_def list_update_same_conv split: if_splits)

lemma ReadTemporaryBuffer_state [simp]: "snd (ReadTemporaryBuffer bid s) = s"
  by (simp add: ReadTemporaryBuffer_def Let_def split: option.splits)

lemma Load_cases:
  assumes "lookup s p = Some h"
  shows "\<exists>r b. Load S p s = (r, store p (h\<lparr>state := BLOCK_LOADED, buffer := b\<rparr>) s)
             \<and> (state h = BLOCK_LOADED \<longrightarrow> b = buffer h)"
proof -
  have same: "h\<lparr>state := BLOCK_LOADED\<rparr> = h\<lparr>state := BLOCK_LOADED, buffer := buffer h\<rparr>"
    by simp
  let ?s1 = "store p (h\<lparr>state := BLOCK_LOADED\<rparr>) s"
  obtain rd where rd: "ReadTemporaryBuffer (block_id h) ?s1 = (rd, ?s1)"
    using ReadTemporaryBuffer_state [of "block_id h" ?s1]
    by (cases "ReadTemporaryBuffer (block_id h) ?s1") simp
  consider (loaded) "state h = BLOCK_LOADED"
    | (persistent) "state h = BLOCK_UNLOADED" "block_id h < MAXIMUM_BLOCK S"
    | (destroyed) "state h = BLOCK_UNLOADED" "\<not> block_id h < MAXIMUM_BLOCK S" "can_destroy h"
    | (failed) err where "state h = BLOCK_UNLOADED" "\<not> block_id h < MAXIMUM_BLOCK S"
        "\<not> can_destroy h" "rd = Inl err"
    | (spilled) b where "state h = BLOCK_UNLOADED" "\<not> block_id h < MAXIMUM_BLOCK S"
        "\<not> can_destroy h" "rd = Inr b"
    by (cases "state h"; cases rd) auto
  then show ?thesis
  proof cases
    case loaded
    then have "h\<lparr>state := BLOCK_LOADED, buffer := buffer h\<rparr> = h" by simp
    with loaded assms
    have "\<exists>r. Load S p s = (r, store p (h\<lparr>state := BLOCK_LOADED, buffer := buffer h\<rparr>) s)"
      by (auto simp: Load_def store_same)
    then show ?thesis by blast
  next
    case persistent
    with assms have "Load S p s = (Inr (Some p), store p (h\<lparr>state := BLOCK_LOADED,
        buffer := Some (Block S (block_id h) (block_manager s (block_id h)))\<rparr>) s)"
      by (simp add: Load_def Let_def)
    with persistent show ?thesis by auto
  next
    case destroyed
    with assms same
    have "Load S p s = (Inr None, store p (h\<lparr>state := BLOCK_LOADED, buffer := buffer h\<rparr>) s)"
      by (simp add: Load_def Let_def)
    then show ?thesis by blast
  next
    case failed
    with assms same rd
    have "Load S p s = (Inl err, store p (h\<lparr>state := BLOCK_LOADED, buffer := buffer h\<rparr>) s)"
      by (simp add: Load_def Let_def)
    then show ?thesis by blast
  next
    case spilled
    with assms rd
    have "Load S p s = (Inr (Some p), store p (h\<lparr>state := BLOCK_LOADED, buffer := Some b\<rparr>) s)"
      by (simp add: Load_def Let_def)
    with spilled show ?thesis by auto
  qed
qed

lemma CanUnload_D: "CanUnload S s h \<Longrightarrow> state h = BLOCK_LOADED \<and> readers h = 0"
  by (auto simp: CanUnload_def split: if_splits)

lemma evicted_from_refl [simp]: "evicted_from s s"
  by (simp add: evicted_from_def)

lemma evicted_from_update [simp]:
  "evicted_from s (s'\<lparr>current_memory := c\<rparr>) = evicted_from s s'"
  "evicted_from s (s'\<lparr>queue := q\<rparr>) = evicted_from s s'"
  "evicted_from s (s'\<lparr>files := f\<rparr>) = evicted_from s s'"
  "evicted_from s (s'\<lparr>temp_directory_handle := t\<rparr>) = evicted_from s s'"
  by (simp_all add: evicted_from_def)

lemma evicted_from_store:
  assumes "evicted_from s s1" "lookup s1 q = Some h1" "state h1 = BLOCK_LOADED" "readers h1 = 0"
  shows "evicted_from s (store q (h1\<lparr>state := BLOCK_UNLOADED, buffer := b\<rparr>) s1)"
  unfolding evicted_from_def
proof
  fix p
  let ?s2 = "store q (h1\<lparr>state := BLOCK_UNLOADED, buffer := b\<rparr>) s1"
  from assms(1) have a: "lookup s1 p = lookup s p \<or>
          (\<exists>h b. lookup s p = Some h \<and> state h = BLOCK_LOADED \<and> readers h = 0 \<and>
                 lookup s1 p = Some (h\<lparr>state := BLOCK_UNLOADED, buffer := b\<rparr>))"
    by (simp add: evicted_from_def)
  show "lookup ?s2 p = lookup s p \<or>
          (\<exists>h b. lookup s p = Some h \<and> state h = BLOCK_LOADED \<and> readers h = 0 \<and>
                 lookup ?s2 p = Some (h\<lparr>state := BLOCK_UNLOADED, buffer := b\<rparr>))"
  proof (cases "p = q")
    case False
    with a show ?thesis by simp
  next
    case True
    with a assms(2,3) have "lookup s q = Some h1" by auto
    with True assms(2,3,4) lookup_Some_less [OF assms(2)] show ?thesis by auto
  qed
qed

lemma Unload_evicted_from:
  assumes "evicted_from s s1"
  shows "evicted_from s (snd (Unload S q s1))"
proof (cases "lookup s1 q")
  case None
  with assms show ?thesis by (simp add: Unload_def)
next
  case (Some h1)
  have e: "h1\<lparr>state := BLOCK_UNLOADED\<rparr> = h1\<lparr>state := BLOCK_UNLOADED, buffer := buffer h1\<rparr>"
    by simp
  from Unload_cases [OF Some, of S] show ?thesis
  proof (elim disjE exE conjE)
    fix err f t
    assume "Unload S q s1 = (Inl err, (store q (h1\<lparr>state := BLOCK_UNLOADED\<rparr>) s1)
              \<lparr>files := f, temp_directory_handle := t\<rparr>)"
      and "state h1 = BLOCK_LOADED" "CanUnload S s1 h1"
    then show ?thesis
      using evicted_from_store [OF assms Some, of "buffer h1"] CanUnload_D [of S s1 h1] e
      by simp
  next
    fix f t
    assume "Unload S q s1 = (Inr (), (store q (h1\<lparr>state := BLOCK_UNLOADED, buffer := None\<rparr>) s1)
              \<lparr>files := f, temp_directory_handle := t,
                current_memory := current_memory s1 - memory_usage h1\<rparr>)"
      and "state h1 = BLOCK_LOADED" "CanUnload S s1 h1"
    then show ?thesis
      using evicted_from_store [OF assms Some, of None] CanUnload_D [of S s1 h1]
      by simp
  qed (use assms in simp_all)
qed

lemma evict_node_evicted_from:
  "evicted_from s s1 \<Longrightarrow> evicted_from s (snd (evict_node S node s1))"
  using evict_node_cases [of S node s1] by (auto simp: Unload_evicted_from)

lemma EvictBlocks_evicted_from:
  "evicted_from s (snd (EvictBlocks S extra_memory memory_limit s))"
  by (rule EvictBlocks_preserves [where Q = "evicted_from s"])
     (simp_all add: evict_node_evicted_from)

section \<open>Readers and the loaded state\<close>

lemma lookup_make_shared:
  "lookup (snd (make_shared h s)) p = (if p = length (heap s) then Some h else lookup s p)"
  by (auto simp: make_shared_def lookup_def nth_append)

lemma lookup_append:
  "lookup (s\<lparr>heap := heap s @ [Some h]\<rparr>) p
     = (if p = length (heap s) then Some h else lookup s p)"
  by (auto simp: lookup_def nth_append)

lemma lookup_delete:
  "lookup (s\<lparr>heap := (heap s)[q := None]\<rparr>) p = (if p = q then None else lookup s p)"
  by (auto simp: lookup_def)

lemma readers_loaded_update [simp]:
  "readers_loaded (s\<lparr>current_memory := c\<rparr>) = readers_loaded s"
  "readers_loaded (s\<lparr>maximum_memory := m\<rparr>) = readers_loaded s"
  "readers_loaded (s\<lparr>queue := q\<rparr>) = readers_loaded s"
  "readers_loaded (s\<lparr>files := f\<rparr>) = readers_loaded s"
  "readers_loaded (s\<lparr>temp_directory := d\<rparr>) = readers_loaded s"
  "readers_loaded (s\<lparr>temp_directory_handle := t\<rparr>) = readers_loaded s"
  "readers_loaded (s\<lparr>temporary_id := i\<rparr>) = readers_loaded s"
  "readers_loaded (s\<lparr>blocks := b\<rparr>) = readers_loaded s"
  by (simp_all add: readers_loaded_def)

lemma readers_loaded_store:
  "readers_loaded s \<Longrightarrow> (readers h > 0 \<longrightarrow> state h = BLOCK_LOADED)
     \<Longrightarrow> readers_loaded (store p h s)"
  by (simp add: readers_loaded_def)

lemma readers_loaded_evicted_from:
  assumes "readers_loaded s" "evicted_from s s'"
  shows "readers_loaded s'"
  unfolding readers_loaded_def
proof (intro allI impI)
  fix p h'
  assume l: "lookup s' p = Some h'" and r: "readers h' > 0"
  from assms(2) have "lookup s' p = lookup s p \<or>
      (\<exists>h b. lookup s p = Some h \<and> state h = BLOCK_LOADED \<and> readers h = 0 \<and>
             lookup s' p = Some (h\<lparr>state := BLOCK_UNLOADED, buffer := b\<rparr>))"
    by (simp add: evicted_from_def)
  then show "state h' = BLOCK_LOADED"
  proof
    assume "lookup s' p = lookup s p"
    with l r assms(1) show ?thesis by (simp add: readers_loaded_def)
  next
    assume "\<exists>h b. lookup s p = Some h \<and> state h = BLOCK_LOADED \<and> readers h = 0 \<and>
             lookup s' p = Some (h\<lparr>state := BLOCK_UNLOADED, buffer := b\<rparr>)"
    with l r show ?thesis by auto
  qed
qed

lemma EvictBlocks_readers_loaded:
  "readers_loaded s \<Longrightarrow> readers_loaded (snd (EvictBlocks S extra_memory memory_limit s))"
  by (rule readers_loaded_evicted_from [OF _ EvictBlocks_evicted_from])

lemma Load_store_readers_loaded:
  assumes "readers_loaded s" "lookup s p = Some h0"
  shows "readers_loaded (snd (Load S p (store p h s)))"
proof -
  from assms(2) have "lookup (store p h s) p = Some h"
    by (simp add: lookup_Some_less)
  from Load_cases [OF this, of S] obtain r b where
    "Load S p (store p h s) = (r, store p (h\<lparr>state := BLOCK_LOADED, buffer := b\<rparr>) s)"
    by auto
  with assms(1) show ?thesis by (simp add: readers_loaded_store)
qed

lemma evicted_from_unloaded:
  "evicted_from s s1 \<Longrightarrow> lookup s p = Some h \<Longrightarrow> state h = BLOCK_UNLOADED
     \<Longrightarrow> lookup s1 p = Some h"
  unfolding evicted_from_def by (erule allE [of _ p]) auto

lemma evicted_from_pinned:
  "evicted_from s s1 \<Longrightarrow> lookup s p = Some h \<Longrightarrow> readers h \<noteq> 0
     \<Longrightarrow> lookup s1 p = Some h"
  unfolding evicted_from_def by (erule allE [of _ p]) auto

text \<open>What Pin does, by the state of the handle.\<close>

lemma Pin_cases:
  assumes "lookup s p = Some h"
  shows "(state h = BLOCK_LOADED \<and>
          (\<exists>r. Pin S p s = (r, store p (h\<lparr>readers := readers h + 1\<rparr>) s)))
       \<or> (state h = BLOCK_UNLOADED \<and>
          (\<exists>r s1. EvictBlocks S (memory_usage h) (maximum_memory s) s = (r, s1) \<and>
             ((\<exists>e. Pin S p s = (Inl e, s1)) \<or>
              (r = Inr True \<and> readers h = 0 \<and>
               (\<exists>r' b. Pin S p s
                   = (r', store p (h\<lparr>readers := 1, state := BLOCK_LOADED, buffer := b\<rparr>) s1))))))"
proof (cases "state h")
  case BLOCK_LOADED
  let ?h = "h\<lparr>readers := readers h + 1\<rparr>"
  have l: "lookup (store p ?h s) p = Some ?h"
    using assms by (simp add: lookup_Some_less)
  from Load_cases [OF l, of S] BLOCK_LOADED obtain r where
    "Load S p (store p ?h s) = (r, store p (?h\<lparr>state := BLOCK_LOADED, buffer := buffer ?h\<rparr>) s)"
    by auto
  moreover have "?h\<lparr>state := BLOCK_LOADED, buffer := buffer ?h\<rparr> = ?h"
    using BLOCK_LOADED by (cases h) simp
  ultimately have "Load S p (store p ?h s) = (r, store p ?h s)"
    by (simp only:)
  then have "Pin S p s = (r, store p ?h s)"
    using assms BLOCK_LOADED by (simp add: Pin_def)
  with BLOCK_LOADED show ?thesis by blast
next
  case BLOCK_UNLOADED
  obtain r s1 where e: "EvictBlocks S (memory_usage h) (maximum_memory s) s = (r, s1)"
    by (cases "EvictBlocks S (memory_usage h) (maximum_memory s) s")
  have "evicted_from s s1"
    using EvictBlocks_evicted_from [of s S "memory_usage h" "maximum_memory s"] e by simp
  then have l1: "lookup s1 p = Some h"
    using assms BLOCK_UNLOADED by (rule evicted_from_unloaded)
  have "(\<exists>e. Pin S p s = (Inl e, s1)) \<or>
              (r = Inr True \<and> readers h = 0 \<and>
               (\<exists>r' b. Pin S p s
                   = (r', store p (h\<lparr>readers := 1, state := BLOCK_LOADED, buffer := b\<rparr>) s1)))"
  proof (cases "r = Inr True \<and> readers h = 0")
    case False
    with e l1 assms BLOCK_UNLOADED have "\<exists>e. Pin S p s = (Inl e, s1)"
      by (cases r) (auto simp: Pin_def Let_def)
    then show ?thesis ..
  next
    case True
    let ?h = "h\<lparr>readers := 1\<rparr>"
    have l: "lookup (store p ?h s1) p = Some ?h"
      using l1 by (simp add: lookup_Some_less)
    from Load_cases [OF l, of S] obtain r' b where
      "Load S p (store p ?h s1) = (r', store p (?h\<lparr>state := BLOCK_LOADED, buffer := b\<rparr>) s1)"
      by auto
    with True e l1 assms BLOCK_UNLOADED
    have "Pin S p s = (r', store p (h\<lparr>readers := 1, state := BLOCK_LOADED, buffer := b\<rparr>) s1)"
      by (simp add: Pin_def Let_def)
    with True show ?thesis by blast
  qed
  with e BLOCK_UNLOADED show ?thesis by blast
qed

lemma Pin_readers_loaded:
  assumes "readers_loaded s"
  shows "readers_loaded (snd (Pin S p s))"
proof (cases "lookup s p")
  case None
  with assms show ?thesis by (simp add: Pin_def)
next
  case (Some h)
  have ev: "\<And>e l. readers_loaded (snd (EvictBlocks S e l s))"
    using assms by (rule EvictBlocks_readers_loaded)
  from Pin_cases [OF Some, of S] show ?thesis
  proof (elim disjE exE conjE)
    fix r
    assume "state h = BLOCK_LOADED" "Pin S p s = (r, store p (h\<lparr>readers := readers h + 1\<rparr>) s)"
    with assms show ?thesis by (simp add: readers_loaded_store)
  next
    fix r s1 e
    assume "EvictBlocks S (memory_usage h) (maximum_memory s) s = (r, s1)"
      "Pin S p s = (Inl e, s1)"
    with ev [of "memory_usage h" "maximum_memory s"] show ?thesis by simp
  next
    fix r s1 r' b
    assume "EvictBlocks S (memory_usage h) (maximum_memory s) s = (r, s1)"
      "Pin S p s = (r', store p (h\<lparr>readers := 1, state := BLOCK_LOADED, buffer := b\<rparr>) s1)"
    with ev [of "memory_usage h" "maximum_memory s"] show ?thesis
      by (simp add: readers_loaded_store)
  qed
qed

lemma Unpin_readers_loaded:
  "readers_loaded s \<Longrightarrow> readers_loaded (snd (Unpin p s))"
  by (cases "lookup s p") (auto simp: Unpin_def Let_def readers_loaded_def)

lemma RegisterBlock_readers_loaded:
  "readers_loaded s \<Longrightarrow> readers_loaded (snd (RegisterBlock S bid s))"
  by (auto simp: RegisterBlock_def readers_loaded_def make_shared_def lookup_append
      BlockHandle_new_def split: option.splits)

text \<open>What RegisterMemory does.\<close>

lemma RegisterMemory_cases:
  "\<exists>r s1. EvictBlocks S (alloc_size + BLOCK_HEADER_SIZE S) (maximum_memory s) s = (r, s1) \<and>
     ((\<exists>e. RegisterMemory S alloc_size can_destroy_p s = (Inl e, s1)) \<or>
      (\<exists>e. RegisterMemory S alloc_size can_destroy_p s
              = (Inl e, s1\<lparr>temporary_id := temporary_id s1 + 1\<rparr>)) \<or>
      (r = Inr True \<and> \<not> alloc_size < BLOCK_SIZE S \<and>
       RegisterMemory S alloc_size can_destroy_p s
         = (Inr (length (heap s1)),
            s1\<lparr>temporary_id := temporary_id s1 + 1,
               heap := heap s1 @
                 [Some \<lparr>readers = 0, block_id = temporary_id s1 + 1, state = BLOCK_LOADED,
                        buffer = Some (ManagedBuffer alloc_size can_destroy_p (temporary_id s1 + 1)),
                        eviction_timestamp = 0, can_destroy = can_destroy_p,
                        memory_usage = alloc_size + BLOCK_HEADER_SIZE S\<rparr>]\<rparr>)))"
proof -
  obtain r s1 where e:
    "EvictBlocks S (alloc_size + BLOCK_HEADER_SIZE S) (maximum_memory s) s = (r, s1)"
    by (cases "EvictBlocks S (alloc_size + BLOCK_HEADER_SIZE S) (maximum_memory s) s")
  show ?thesis
  proof (cases "r = Inr True")
    case False
    with e have "\<exists>e. RegisterMemory S alloc_size can_destroy_p s = (Inl e, s1)"
      by (cases r) (auto simp: RegisterMemory_def)
    with e show ?thesis by blast
  next
    case True
    with e show ?thesis
      by (cases "alloc_size < BLOCK_SIZE S")
         (simp_all add: RegisterMemory_def Let_def BlockHandle_new_memory_def make_shared_def)
  qed
qed

lemma RegisterMemory_readers_loaded:
  assumes "readers_loaded s"
  shows "readers_loaded (snd (RegisterMemory S alloc_size can_destroy_p s))"
proof -
  have ev: "\<And>e l. readers_loaded (snd (EvictBlocks S e l s))"
    using assms by (rule EvictBlocks_readers_loaded)
  from RegisterMemory_cases [of S alloc_size s can_destroy_p] show ?thesis
  proof (elim disjE exE conjE)
    fix r s1
    assume e: "EvictBlocks S (alloc_size + BLOCK_HEADER_SIZE S) (maximum_memory s) s = (r, s1)"
      and "RegisterMemory S alloc_size can_destroy_p s
         = (Inr (length (heap s1)),
            s1\<lparr>temporary_id := temporary_id s1 + 1,
               heap := heap s1 @
                 [Some \<lparr>readers = 0, block_id = temporary_id s1 + 1, state = BLOCK_LOADED,
                        buffer = Some (ManagedBuffer alloc_size can_destroy_p (temporary_id s1 + 1)),
                        eviction_timestamp = 0, can_destroy = can_destroy_p,
                        memory_usage = alloc_size + BLOCK_HEADER_SIZE S\<rparr>]\<rparr>)"
    moreover from e ev [of "alloc_size + BLOCK_HEADER_SIZE S" "maximum_memory s"]
    have "readers_loaded s1" by simp
    ultimately show ?thesis
      by (auto simp: readers_loaded_def lookup_def nth_append split: if_splits)
  qed (use ev [of "alloc_size + BLOCK_HEADER_SIZE S" "maximum_memory s"] in simp_all)
qed

lemma Allocate_readers_loaded:
  assumes "readers_loaded s"
  shows "readers_loaded (snd (Allocate S alloc_size s))"
proof -
  obtain r s1 where e: "RegisterMemory S alloc_size True s = (r, s1)"
    by (cases "RegisterMemory S alloc_size True s")
  with RegisterMemory_readers_loaded [OF assms, of S alloc_size True]
  have "readers_loaded s1" by simp
  with e show ?thesis
    by (cases r) (simp_all add: Allocate_def Pin_readers_loaded)
qed

text \<open>What ReAllocate does.\<close>

lemma ReAllocate_cases:
  "(\<exists>e. ReAllocate S p alloc_size s = (Inl e, s))
   \<or> (\<exists>e h. lookup s p = Some h \<and>
        ReAllocate S p alloc_size s
          = (Inl e, snd (EvictBlocks S (alloc_size + BLOCK_HEADER_SIZE S - memory_usage h)
                          (maximum_memory s) s)))
   \<or> (\<exists>h s1 b. lookup s p = Some h \<and> readers h = 1 \<and> lookup s1 p = Some h \<and>
        buffer h = Some b \<and>
        (if 0 < sint (alloc_size + BLOCK_HEADER_SIZE S - memory_usage h)
         then EvictBlocks S (alloc_size + BLOCK_HEADER_SIZE S - memory_usage h)
                (maximum_memory s) s = (Inr True, s1)
         else s1 = s) \<and>
        ReAllocate S p alloc_size s
          = (Inr (),
             (store p (h\<lparr>buffer := Some (Resize b alloc_size),
                         memory_usage := alloc_size + BLOCK_HEADER_SIZE S\<rparr>) s1)
               \<lparr>current_memory :=
                  (if sint (alloc_size + BLOCK_HEADER_SIZE S - memory_usage h) < 0
                   then current_memory s1 + (alloc_size + BLOCK_HEADER_SIZE S - memory_usage h)
                   else current_memory s1)\<rparr>))"
proof (cases "alloc_size < BLOCK_SIZE S \<or> lookup s p = None")
  case True
  then have "\<exists>e. ReAllocate S p alloc_size s = (Inl e, s)"
    by (auto simp: ReAllocate_def)
  then show ?thesis by blast
next
  case False
  then obtain h where h: "lookup s p = Some h" and sz: "\<not> alloc_size < BLOCK_SIZE S"
    by auto
  let ?req = "alloc_size + BLOCK_HEADER_SIZE S - memory_usage h"
  show ?thesis
  proof (cases "readers h = 1")
    case False
    with h sz have "\<exists>e. ReAllocate S p alloc_size s = (Inl e, s)"
      by (simp add: ReAllocate_def)
    then show ?thesis by blast
  next
    case one: True
    obtain r s0 where e: "EvictBlocks S ?req (maximum_memory s) s = (r, s0)"
      by (cases "EvictBlocks S ?req (maximum_memory s) s")
    have "evicted_from s s0"
      using EvictBlocks_evicted_from [of s S ?req "maximum_memory s"] e by simp
    then have l0: "lookup s0 p = Some h"
      using h one by (auto intro: evicted_from_pinned)
    define s1 where "s1 = (if 0 < sint ?req then s0 else s)"
    have l1: "lookup s1 p = Some h"
      using l0 h by (simp add: s1_def)
    show ?thesis
    proof (cases "0 < sint ?req \<and> r \<noteq> Inr True")
      case True
      with e h sz one have "\<exists>err. ReAllocate S p alloc_size s = (Inl err, s0)"
        by (cases r) (auto simp: ReAllocate_def Let_def)
      with e h show ?thesis by auto
    next
      case ok: False
      then have step: "(if 0 < sint ?req
                  then (case EvictBlocks S ?req (maximum_memory s) s of
                          (Inl e, s1) \<Rightarrow> (Inl e, s1)
                        | (Inr ok, s1) \<Rightarrow>
                            if \<not> ok then (Inl OutOfRangeException, s1) else (Inr (), s1))
                  else (Inr (), s)) = (Inr (), s1)"
        using e by (auto simp: s1_def)
      show ?thesis
      proof (cases "buffer h")
        case None
        with step h sz one l1 have "ReAllocate S p alloc_size s = (Inl NullPointer, s1)"
          by (simp add: ReAllocate_def Let_def)
        with e h show ?thesis by (auto simp: s1_def)
      next
        case (Some b)
        have fin: "ReAllocate S p alloc_size s
          = (Inr (),
             (store p (h\<lparr>buffer := Some (Resize b alloc_size),
                         memory_usage := alloc_size + BLOCK_HEADER_SIZE S\<rparr>) s1)
               \<lparr>current_memory :=
                  (if sint ?req < 0 then current_memory s1 + ?req else current_memory s1)\<rparr>)"
          using step h sz one l1 Some
          by (simp add: ReAllocate_def Let_def store_def)
        have "if 0 < sint ?req
              then EvictBlocks S ?req (maximum_memory s) s = (Inr True, s1) else s1 = s"
          using ok e by (auto simp: s1_def)
        with fin h one l1 Some show ?thesis by blast
      qed
    qed
  qed
qed

lemma ReAllocate_readers_loaded:
  assumes "readers_loaded s"
  shows "readers_loaded (snd (ReAllocate S p alloc_size s))"
proof -
  have ev: "\<And>e l. readers_loaded (snd (EvictBlocks S e l s))"
    using assms by (rule EvictBlocks_readers_loaded)
  from ReAllocate_cases [of S p alloc_size s] show ?thesis
  proof (elim disjE exE conjE)
    fix h s1 b
    assume h: "lookup s p = Some h" "readers h = 1"
      and s1: "if 0 < sint (alloc_size + BLOCK_HEADER_SIZE S - memory_usage h)
         then EvictBlocks S (alloc_size + BLOCK_HEADER_SIZE S - memory_usage h)
                (maximum_memory s) s = (Inr True, s1)
         else s1 = s"
      and r: "ReAllocate S p alloc_size s
          = (Inr (),
             (store p (h\<lparr>buffer := Some (Resize b alloc_size),
                         memory_usage := alloc_size + BLOCK_HEADER_SIZE S\<rparr>) s1)
               \<lparr>current_memory :=
                  (if sint (alloc_size + BLOCK_HEADER_SIZE S - memory_usage h) < 0
                   then current_memory s1 + (alloc_size + BLOCK_HEADER_SIZE S - memory_usage h)
                   else current_memory s1)\<rparr>)"
    have "readers_loaded s1"
      using s1 assms ev [of "alloc_size + BLOCK_HEADER_SIZE S - memory_usage h" "maximum_memory s"]
      by (auto split: if_splits)
    moreover have "state h = BLOCK_LOADED"
      using assms h by (auto simp: readers_loaded_def)
    ultimately show ?thesis
      using r by (simp add: readers_loaded_store)
  qed (use assms ev in simp_all)
qed

lemma SetLimit_readers_loaded:
  assumes "readers_loaded s"
  shows "readers_loaded (snd (SetLimit S limit s))"
proof -
  obtain r s1 where e: "EvictBlocks S 0 limit s = (r, s1)"
    by (cases "EvictBlocks S 0 limit s")
  have s1: "readers_loaded s1"
    using EvictBlocks_readers_loaded [OF assms, of S 0 limit] e by simp
  obtain r2 s3 where e2: "EvictBlocks S 0 limit (s1\<lparr>maximum_memory := limit\<rparr>) = (r2, s3)"
    by (cases "EvictBlocks S 0 limit (s1\<lparr>maximum_memory := limit\<rparr>)")
  have "readers_loaded s3"
    using EvictBlocks_readers_loaded [of "s1\<lparr>maximum_memory := limit\<rparr>" S 0 limit] e2 s1
    by simp
  with e e2 s1 show ?thesis
    by (cases r; cases r2) (simp_all add: SetLimit_def Let_def)
qed

lemma UnregisterBlock_lookup [simp]:
  "lookup (UnregisterBlock S bid c s) p = lookup s p"
  by (simp add: UnregisterBlock_def DeleteTemporaryFile_def Let_def)

lemma UnregisterBlock_heap [simp]:
  "heap (UnregisterBlock S bid c s) = heap s"
  by (simp add: UnregisterBlock_def DeleteTemporaryFile_def Let_def)

lemma BlockHandle_delete_unfold:
  "BlockHandle_delete S p s =
     (case lookup s p of
        None \<Rightarrow> (Inl NullPointer, s)
      | Some h \<Rightarrow>
          let s1 = (if state h = BLOCK_LOADED
                    then s\<lparr>current_memory := current_memory s - memory_usage h\<rparr>
                    else s);
              s2 = UnregisterBlock S (block_id h) (can_destroy h) s1
          in (Inr (), s2\<lparr>heap := (heap s2)[p := None]\<rparr>))"
  by (simp add: BlockHandle_delete_def shared_ptr_release_def BlockHandle_destructor_def
      UnregisterBlock_def DeleteTemporaryFile_def GetTemporaryPath_def Let_def
      split: option.splits)

lemma BlockHandle_delete_lookup:
  "lookup s q = Some h \<Longrightarrow>
     lookup (snd (BlockHandle_delete S q s)) p = (if p = q then None else lookup s p)"
  by (simp add: BlockHandle_delete_unfold Let_def lookup_def)

lemma BlockHandle_delete_readers_loaded:
  "readers_loaded s \<Longrightarrow> readers_loaded (snd (BlockHandle_delete S p s))"
proof (cases "lookup s p")
  case None
  assume "readers_loaded s"
  with None show ?thesis by (simp add: BlockHandle_delete_unfold)
next
  case (Some h)
  assume "readers_loaded s"
  then show ?thesis
    by (simp add: readers_loaded_def BlockHandle_delete_lookup [OF Some])
qed

lemma exec_readers_loaded:
  "readers_loaded s \<Longrightarrow> readers_loaded (snd (exec S op s))"
  by (cases op)
     (simp_all add: RegisterBlock_readers_loaded RegisterMemory_readers_loaded
        Allocate_readers_loaded ReAllocate_readers_loaded Pin_readers_loaded
        Unpin_readers_loaded EvictBlocks_readers_loaded SetLimit_readers_loaded
        BlockHandle_delete_readers_loaded SetTemporaryDirectory_def)

lemma reachable_readers_loaded: "reachable S s \<Longrightarrow> readers_loaded s"
proof (induction rule: reachable.induct)
  case (reachable_new tmp maximum_memory_p fs bm)
  show ?case by (simp add: readers_loaded_def BufferManager_new_def lookup_def)
next
  case (reachable_exec s op)
  then show ?case by (simp add: exec_readers_loaded)
qed

text \<open>
  Claim C2.  In every reachable state a handle with readers is loaded, and every
  operation keeps it so, whether it returns or raises: \<open>Pin\<close> adds a reader to a
  loaded handle or sets one reader on a handle that \<open>Load\<close> then marks loaded,
  \<open>Unpin\<close> only takes a reader away, and \<open>EvictBlocks\<close> unloads only handles
  without readers.
\<close>
theorem readers_imply_loaded:
  "(reachable S s \<longrightarrow> readers_loaded s) \<and>
   (readers_loaded s \<longrightarrow> readers_loaded (snd (exec S op s)))"
  by (simp add: reachable_readers_loaded exec_readers_loaded)

section \<open>The registry of blocks\<close>

lemma same_ids_refl [simp]: "same_ids s s"
  by (simp add: same_ids_def)

lemma same_ids_trans: "same_ids s s1 \<Longrightarrow> same_ids s1 s2 \<Longrightarrow> same_ids s s2"
  by (simp add: same_ids_def)

lemma same_ids_update [simp]:
  "same_ids s (s'\<lparr>current_memory := c\<rparr>) = same_ids s s'"
  "same_ids s (s'\<lparr>maximum_memory := m\<rparr>) = same_ids s s'"
  "same_ids s (s'\<lparr>queue := q\<rparr>) = same_ids s s'"
  "same_ids s (s'\<lparr>files := f\<rparr>) = same_ids s s'"
  "same_ids s (s'\<lparr>temp_directory := d\<rparr>) = same_ids s s'"
  "same_ids s (s'\<lparr>temp_directory_handle := t\<rparr>) = same_ids s s'"
  by (simp_all add: same_ids_def)

lemma same_ids_lookup:
  "same_ids s s' \<Longrightarrow> map_option block_id (lookup s' p) = map_option block_id (lookup s p)"
  by (simp add: same_ids_def)

lemma same_ids_store:
  assumes "same_ids s s1" "lookup s1 p = Some h" "block_id h' = block_id h"
  shows "same_ids s (store p h' s1)"
  unfolding same_ids_def
proof (intro conjI allI)
  fix q
  show "map_option block_id (lookup (store p h' s1) q) = map_option block_id (lookup s q)"
    using same_ids_lookup [OF assms(1), of q] assms(2,3) by auto
qed (use assms(1) in \<open>simp_all add: same_ids_def\<close>)

lemma evicted_from_same_ids:
  assumes "evicted_from s s'" "length (heap s') = length (heap s)" "blocks s' = blocks s"
    "temporary_id s' = temporary_id s"
  shows "same_ids s s'"
  unfolding same_ids_def
proof (intro conjI allI)
  fix p
  from assms(1) have "lookup s' p = lookup s p \<or>
      (\<exists>h b. lookup s p = Some h \<and> state h = BLOCK_LOADED \<and> readers h = 0 \<and>
             lookup s' p = Some (h\<lparr>state := BLOCK_UNLOADED, buffer := b\<rparr>))"
    by (simp add: evicted_from_def)
  then show "map_option block_id (lookup s' p) = map_option block_id (lookup s p)"
    by auto
qed (use assms in simp_all)

lemma EvictBlocks_same_ids: "same_ids s (snd (EvictBlocks S extra_memory memory_limit s))"
  by (rule evicted_from_same_ids) (simp_all add: EvictBlocks_evicted_from)

lemma EvictBlocks_same_ids_trans:
  "same_ids s s0 \<Longrightarrow> same_ids s (snd (EvictBlocks S extra_memory memory_limit s0))"
  by (erule same_ids_trans) (rule EvictBlocks_same_ids)

lemma Pin_same_ids: "same_ids s (snd (Pin S p s))"
proof (cases "lookup s p")
  case None
  then show ?thesis by (simp add: Pin_def)
next
  case (Some h)
  from Pin_cases [OF Some, of S] show ?thesis
  proof (elim disjE exE conjE)
    fix r
    assume "Pin S p s = (r, store p (h\<lparr>readers := readers h + 1\<rparr>) s)"
    with Some show ?thesis by (simp add: same_ids_store)
  next
    fix r s1 e
    assume "EvictBlocks S (memory_usage h) (maximum_memory s) s = (r, s1)"
      "Pin S p s = (Inl e, s1)"
    with EvictBlocks_same_ids [of s S "memory_usage h" "maximum_memory s"]
    show ?thesis by simp
  next
    fix r s1 r' b
    assume e: "EvictBlocks S (memory_usage h) (maximum_memory s) s = (r, s1)"
      and u: "state h = BLOCK_UNLOADED"
      and "Pin S p s = (r', store p (h\<lparr>readers := 1, state := BLOCK_LOADED, buffer := b\<rparr>) s1)"
    moreover from e EvictBlocks_same_ids [of s S "memory_usage h" "maximum_memory s"]
    have "same_ids s s1" by simp
    moreover from e EvictBlocks_evicted_from [of s S "memory_usage h" "maximum_memory s"] Some u
    have "lookup s1 p = Some h" by (auto intro: evicted_from_unloaded)
    ultimately show ?thesis by (simp add: same_ids_store)
  qed
qed

lemma Unpin_same_ids: "same_ids s (snd (Unpin p s))"
  by (cases "lookup s p") (auto simp: Unpin_def Let_def same_ids_store)

lemma ReAllocate_same_ids: "same_ids s (snd (ReAllocate S p alloc_size s))"
proof -
  from ReAllocate_cases [of S p alloc_size s] show ?thesis
  proof (elim disjE exE conjE)
    fix h s1 b
    assume l1: "lookup s1 p = Some h"
      and s1: "if 0 < sint (alloc_size + BLOCK_HEADER_SIZE S - memory_usage h)
         then EvictBlocks S (alloc_size + BLOCK_HEADER_SIZE S - memory_usage h)
                (maximum_memory s) s = (Inr True, s1)
         else s1 = s"
      and r: "ReAllocate S p alloc_size s
          = (Inr (),
             (store p (h\<lparr>buffer := Some (Resize b alloc_size),
                         memory_usage := alloc_size + BLOCK_HEADER_SIZE S\<rparr>) s1)
               \<lparr>current_memory :=
                  (if sint (alloc_size + BLOCK_HEADER_SIZE S - memory_usage h) < 0
                   then current_memory s1 + (alloc_size + BLOCK_HEADER_SIZE S - memory_usage h)
                   else current_memory s1)\<rparr>)"
    have "same_ids s s1"
      using s1 EvictBlocks_same_ids [of s S "alloc_size + BLOCK_HEADER_SIZE S - memory_usage h"
          "maximum_memory s"]
      by (auto split: if_splits)
    with r l1 show ?thesis by (simp add: same_ids_store)
  qed (simp_all add: EvictBlocks_same_ids)
qed

lemma SetLimit_same_ids: "same_ids s (snd (SetLimit S limit s))"
proof -
  obtain r s1 where e: "EvictBlocks S 0 limit s = (r, s1)"
    by (cases "EvictBlocks S 0 limit s")
  have s1: "same_ids s s1"
    using EvictBlocks_same_ids [of s S 0 limit] e by simp
  obtain r2 s3 where e2: "EvictBlocks S 0 limit (s1\<lparr>maximum_memory := limit\<rparr>) = (r2, s3)"
    by (cases "EvictBlocks S 0 limit (s1\<lparr>maximum_memory := limit\<rparr>)")
  have "same_ids s s3"
    using EvictBlocks_same_ids_trans [of s "s1\<lparr>maximum_memory := limit\<rparr>" S 0 limit] e2 s1
    by simp
  with e e2 s1 show ?thesis
    by (cases r; cases r2) (simp_all add: SetLimit_def Let_def)
qed

lemma registered_alive:
  "registered S s \<Longrightarrow> lookup s p = Some h \<Longrightarrow> block_id h < MAXIMUM_BLOCK S
     \<Longrightarrow> blocks s (block_id h) = Some p"
  by (simp add: registered_def)

lemma registered_entry:
  "registered S s \<Longrightarrow> blocks s b = Some p \<Longrightarrow> p < length (heap s)"
  "registered S s \<Longrightarrow> blocks s b = Some p \<Longrightarrow> lookup s p = Some h \<Longrightarrow> block_id h = b"
  by (simp_all add: registered_def)

lemma registered_temporary_id: "registered S s \<Longrightarrow> MAXIMUM_BLOCK S \<le> temporary_id s"
  by (simp add: registered_def)

lemma registered_same_ids:
  assumes "registered S s" "same_ids s s'"
  shows "registered S s'"
  unfolding registered_def
proof (intro conjI allI impI)
  fix p h'
  assume l: "lookup s' p = Some h'" and b: "block_id h' < MAXIMUM_BLOCK S"
  with same_ids_lookup [OF assms(2), of p]
  obtain h where h: "lookup s p = Some h" "block_id h = block_id h'"
    by (cases "lookup s p") auto
  from registered_alive [OF assms(1) h(1)] h(2) b assms(2)
  show "blocks s' (block_id h') = Some p"
    by (simp add: same_ids_def)
next
  fix b p
  assume "blocks s' b = Some p"
  with assms(2) registered_entry(1) [OF assms(1), of b p] show "p < length (heap s')"
    by (simp add: same_ids_def)
next
  fix b p h'
  assume bl: "blocks s' b = Some p" and l: "lookup s' p = Some h'"
  with same_ids_lookup [OF assms(2), of p]
  obtain h where h: "lookup s p = Some h" "block_id h = block_id h'"
    by (cases "lookup s p") auto
  from bl assms(2) have "blocks s b = Some p" by (simp add: same_ids_def)
  from registered_entry(2) [OF assms(1) this h(1)] h(2) show "block_id h' = b"
    by simp
next
  from assms show "MAXIMUM_BLOCK S \<le> temporary_id s'"
    by (simp add: registered_def same_ids_def)
qed

lemma weak_lock_eq:
  "weak_lock s p = (if lookup s p = None then None else Some p)"
  by (simp add: weak_lock_def split: option.splits)

text \<open>What RegisterBlock does.\<close>

lemma RegisterBlock_cases:
  "(\<exists>p h. blocks s bid = Some p \<and> lookup s p = Some h \<and> RegisterBlock S bid s = (p, s))
   \<or> ((\<forall>p. blocks s bid = Some p \<longrightarrow> lookup s p = None) \<and>
       RegisterBlock S bid s
         = (length (heap s),
            s\<lparr>heap := heap s @ [Some (BlockHandle_new S bid)],
              blocks := (blocks s)(bid \<mapsto> length (heap s))\<rparr>))"
  by (cases "blocks s bid")
     (auto simp: RegisterBlock_def weak_lock_eq make_shared_def)

lemma RegisterBlock_registered:
  assumes "registered S s"
  shows "registered S (snd (RegisterBlock S bid s))"
proof -
  from RegisterBlock_cases [of s bid S] show ?thesis
  proof (elim disjE exE conjE)
    fix p h
    assume "RegisterBlock S bid s = (p, s)"
    with assms show ?thesis by simp
  next
    assume dead: "\<forall>p. blocks s bid = Some p \<longrightarrow> lookup s p = None"
      and r: "RegisterBlock S bid s
         = (length (heap s),
            s\<lparr>heap := heap s @ [Some (BlockHandle_new S bid)],
              blocks := (blocks s)(bid \<mapsto> length (heap s))\<rparr>)"
    let ?s' = "s\<lparr>heap := heap s @ [Some (BlockHandle_new S bid)],
                 blocks := (blocks s)(bid \<mapsto> length (heap s))\<rparr>"
    have lk: "\<And>p. lookup ?s' p
        = (if p = length (heap s) then Some (BlockHandle_new S bid) else lookup s p)"
      by (auto simp: lookup_def nth_append)
    have "registered S ?s'"
      unfolding registered_def
    proof (intro conjI allI impI)
      fix p h
      assume l: "lookup ?s' p = Some h" and b: "block_id h < MAXIMUM_BLOCK S"
      show "blocks ?s' (block_id h) = Some p"
      proof (cases "p = length (heap s)")
        case True
        with l lk have "h = BlockHandle_new S bid" by simp
        with True show ?thesis by (simp add: BlockHandle_new_def)
      next
        case False
        with l lk have l0: "lookup s p = Some h" by simp
        from registered_alive [OF assms l0 b] have bl: "blocks s (block_id h) = Some p" .
        with dead l0 have "block_id h \<noteq> bid" by auto
        with bl show ?thesis by simp
      qed
    next
      fix b p
      assume "blocks ?s' b = Some p"
      with registered_entry(1) [OF assms, of b p] show "p < length (heap ?s')"
        by (auto split: if_splits)
    next
      fix b p h
      assume bl: "blocks ?s' b = Some p" and l: "lookup ?s' p = Some h"
      show "block_id h = b"
      proof (cases "b = bid")
        case True
        with bl have "p = length (heap s)" by simp
        with l lk have "h = BlockHandle_new S bid" by simp
        with True show ?thesis by (simp add: BlockHandle_new_def)
      next
        case False
        with bl have bl0: "blocks s b = Some p" by simp
        from registered_entry(1) [OF assms bl0] l lk have "lookup s p = Some h" by simp
        from registered_entry(2) [OF assms bl0 this] show ?thesis .
      qed
    next
      from registered_temporary_id [OF assms] show "MAXIMUM_BLOCK S \<le> temporary_id ?s'"
        by simp
    qed
    with r show ?thesis by simp
  qed
qed

lemma RegisterMemory_registered:
  assumes "registered S s"
  shows "registered S (snd (RegisterMemory S alloc_size can_destroy_p s))"
proof -
  have ev: "\<And>e l. registered S (snd (EvictBlocks S e l s))"
    using assms by (rule registered_same_ids) (rule EvictBlocks_same_ids)
  have tid: "\<And>s1. registered S s1 \<Longrightarrow> registered S (s1\<lparr>temporary_id := temporary_id s1 + 1\<rparr>)"
    by (simp add: registered_def)
  from RegisterMemory_cases [of S alloc_size s can_destroy_p] show ?thesis
  proof (elim disjE exE conjE)
    fix r s1
    assume e: "EvictBlocks S (alloc_size + BLOCK_HEADER_SIZE S) (maximum_memory s) s = (r, s1)"
      and rm: "RegisterMemory S alloc_size can_destroy_p s
         = (Inr (length (heap s1)),
            s1\<lparr>temporary_id := temporary_id s1 + 1,
               heap := heap s1 @
                 [Some \<lparr>readers = 0, block_id = temporary_id s1 + 1, state = BLOCK_LOADED,
                        buffer = Some (ManagedBuffer alloc_size can_destroy_p (temporary_id s1 + 1)),
                        eviction_timestamp = 0, can_destroy = can_destroy_p,
                        memory_usage = alloc_size + BLOCK_HEADER_SIZE S\<rparr>]\<rparr>)"
    let ?h = "\<lparr>readers = 0, block_id = temporary_id s1 + 1, state = BLOCK_LOADED,
                        buffer = Some (ManagedBuffer alloc_size can_destroy_p (temporary_id s1 + 1)),
                        eviction_timestamp = 0, can_destroy = can_destroy_p,
                        memory_usage = alloc_size + BLOCK_HEADER_SIZE S\<rparr>"
    let ?s' = "s1\<lparr>temporary_id := temporary_id s1 + 1, heap := heap s1 @ [Some ?h]\<rparr>"
    from e ev [of "alloc_size + BLOCK_HEADER_SIZE S" "maximum_memory s"]
    have r1: "registered S s1" by simp
    have lk: "\<And>p. lookup ?s' p = (if p = length (heap s1) then Some ?h else lookup s1 p)"
      by (auto simp: lookup_def nth_append)
    have "registered S ?s'"
      unfolding registered_def
    proof (intro conjI allI impI)
      fix p h
      assume l: "lookup ?s' p = Some h" and b: "block_id h < MAXIMUM_BLOCK S"
      show "blocks ?s' (block_id h) = Some p"
      proof (cases "p = length (heap s1)")
        case True
        with l lk b registered_temporary_id [OF r1] show ?thesis by auto
      next
        case False
        with l lk have "lookup s1 p = Some h" by simp
        from registered_alive [OF r1 this b] show ?thesis by simp
      qed
    next
      fix b p
      assume "blocks ?s' b = Some p"
      with registered_entry(1) [OF r1, of b p] show "p < length (heap ?s')"
        by auto
    next
      fix b p h
      assume bl: "blocks ?s' b = Some p" and l: "lookup ?s' p = Some h"
      then have bl0: "blocks s1 b = Some p" by simp
      from registered_entry(1) [OF r1 bl0] l lk have "lookup s1 p = Some h" by simp
      from registered_entry(2) [OF r1 bl0 this] show "block_id h = b" .
    next
      from registered_temporary_id [OF r1] show "MAXIMUM_BLOCK S \<le> temporary_id ?s'"
        by simp
    qed
    with rm show ?thesis by simp
  qed (use ev [of "alloc_size + BLOCK_HEADER_SIZE S" "maximum_memory s"] tid in auto)
qed

lemma Pin_registered: "registered S s \<Longrightarrow> registered S (snd (Pin S p s))"
  by (erule registered_same_ids) (rule Pin_same_ids)

lemma Allocate_registered:
  assumes "registered S s"
  shows "registered S (snd (Allocate S alloc_size s))"
proof -
  obtain r s1 where e: "RegisterMemory S alloc_size True s = (r, s1)"
    by (cases "RegisterMemory S alloc_size True s")
  with RegisterMemory_registered [OF assms, of alloc_size True]
  have "registered S s1" by simp
  with e show ?thesis
    by (cases r) (simp_all add: Allocate_def Pin_registered)
qed

lemma BlockHandle_delete_registered:
  assumes "registered S s"
  shows "registered S (snd (BlockHandle_delete S q s))"
proof (cases "lookup s q")
  case None
  with assms show ?thesis by (simp add: BlockHandle_delete_unfold)
next
  case (Some hq)
  let ?s' = "snd (BlockHandle_delete S q s)"
  have lk: "\<And>p. lookup ?s' p = (if p = q then None else lookup s p)"
    by (rule BlockHandle_delete_lookup [OF Some])
  have bl: "blocks ?s' = (if block_id hq < MAXIMUM_BLOCK S
                          then (blocks s)(block_id hq := None) else blocks s)"
    using Some
    by (auto simp: BlockHandle_delete_unfold Let_def UnregisterBlock_def DeleteTemporaryFile_def)
  have len: "length (heap ?s') = length (heap s)"
    using Some by (simp add: BlockHandle_delete_unfold Let_def)
  have tid: "temporary_id ?s' = temporary_id s"
    using Some
    by (auto simp: BlockHandle_delete_unfold Let_def UnregisterBlock_def DeleteTemporaryFile_def)
  show ?thesis
    unfolding registered_def
  proof (intro conjI allI impI)
    fix p h
    assume l: "lookup ?s' p = Some h" and b: "block_id h < MAXIMUM_BLOCK S"
    with lk have pq: "p \<noteq> q" and l0: "lookup s p = Some h"
      by (auto split: if_splits)
    from registered_alive [OF assms l0 b] have e: "blocks s (block_id h) = Some p" .
    have "block_id hq < MAXIMUM_BLOCK S \<Longrightarrow> block_id h \<noteq> block_id hq"
      using registered_alive [OF assms Some] e pq by auto
    with e bl show "blocks ?s' (block_id h) = Some p" by auto
  next
    fix b p
    assume "blocks ?s' b = Some p"
    with bl have "blocks s b = Some p" by (auto split: if_splits)
    from registered_entry(1) [OF assms this] len show "p < length (heap ?s')" by simp
  next
    fix b p h
    assume e: "blocks ?s' b = Some p" and l: "lookup ?s' p = Some h"
    from e bl have e0: "blocks s b = Some p" by (auto split: if_splits)
    from l lk have "lookup s p = Some h" by (auto split: if_splits)
    from registered_entry(2) [OF assms e0 this] show "block_id h = b" .
  next
    from registered_temporary_id [OF assms] tid show "MAXIMUM_BLOCK S \<le> temporary_id ?s'"
      by simp
  qed
qed

lemma exec_registered:
  "registered S s \<Longrightarrow> registered S (snd (exec S op s))"
proof (cases op)
  case (Op_SetTemporaryDirectory d)
  assume "registered S s"
  with Op_SetTemporaryDirectory show ?thesis
    by (simp add: SetTemporaryDirectory_def registered_def)
qed (simp_all add: RegisterBlock_registered RegisterMemory_registered Allocate_registered
      Pin_registered BlockHandle_delete_registered
      registered_same_ids [OF _ ReAllocate_same_ids] registered_same_ids [OF _ Unpin_same_ids]
      registered_same_ids [OF _ EvictBlocks_same_ids] registered_same_ids [OF _ SetLimit_same_ids])

lemma reachable_registered: "reachable S s \<Longrightarrow> registered S s"
proof (induction rule: reachable.induct)
  case (reachable_new tmp maximum_memory_p fs bm)
  show ?case by (simp add: registered_def BufferManager_new_def lookup_def)
next
  case (reachable_exec s op)
  then show ?case by (simp add: exec_registered)
qed

lemma ids_kept_refl [simp]: "ids_kept s s"
  by (simp add: ids_kept_def)

lemma ids_kept_lookup:
  "ids_kept s s' \<Longrightarrow> p < length (heap s) \<Longrightarrow> lookup s' p = Some h'
     \<Longrightarrow> \<exists>h. lookup s p = Some h \<and> block_id h = block_id h'"
  by (simp add: ids_kept_def)

lemma ids_kept_trans:
  assumes "ids_kept s s1" "ids_kept s1 s2"
  shows "ids_kept s s2"
  unfolding ids_kept_def
proof (intro conjI allI impI)
  from assms show "length (heap s) \<le> length (heap s2)"
    by (simp add: ids_kept_def)
next
  fix p h2
  assume p: "p < length (heap s)" and l: "lookup s2 p = Some h2"
  from assms(1) p have "p < length (heap s1)" by (simp add: ids_kept_def)
  from ids_kept_lookup [OF assms(2) this l]
  obtain h1 where h1: "lookup s1 p = Some h1" "block_id h1 = block_id h2"
    by blast
  from ids_kept_lookup [OF assms(1) p h1(1)]
  obtain h where "lookup s p = Some h" "block_id h = block_id h1"
    by blast
  with h1 show "\<exists>h. lookup s p = Some h \<and> block_id h = block_id h2"
    by simp
qed

lemma same_ids_kept:
  assumes "same_ids s s'"
  shows "ids_kept s s'"
  unfolding ids_kept_def
proof (intro conjI allI impI)
  from assms show "length (heap s) \<le> length (heap s')"
    by (simp add: same_ids_def)
next
  fix p h'
  assume "lookup s' p = Some h'"
  with same_ids_lookup [OF assms, of p]
  show "\<exists>h. lookup s p = Some h \<and> block_id h = block_id h'"
    by (cases "lookup s p") auto
qed

lemma ids_kept_append:
  "ids_kept s (s\<lparr>heap := heap s @ [e]\<rparr>)"
  by (auto simp: ids_kept_def lookup_def nth_append)

lemma RegisterBlock_ids_kept: "ids_kept s (snd (RegisterBlock S bid s))"
proof -
  have "ids_kept s (s\<lparr>heap := heap s @ [Some (BlockHandle_new S bid)]\<rparr>)"
    by (rule ids_kept_append)
  then have "ids_kept s (s\<lparr>heap := heap s @ [Some (BlockHandle_new S bid)],
              blocks := (blocks s)(bid \<mapsto> length (heap s))\<rparr>)"
    by (simp add: ids_kept_def lookup_def)
  with RegisterBlock_cases [of s bid S] show ?thesis by auto
qed

lemma RegisterMemory_ids_kept:
  "ids_kept s (snd (RegisterMemory S alloc_size can_destroy_p s))"
proof -
  have ev: "\<And>e l. ids_kept s (snd (EvictBlocks S e l s))"
    by (rule same_ids_kept) (rule EvictBlocks_same_ids)
  from RegisterMemory_cases [of S alloc_size s can_destroy_p] show ?thesis
  proof (elim disjE exE conjE)
    fix r s1
    assume e: "EvictBlocks S (alloc_size + BLOCK_HEADER_SIZE S) (maximum_memory s) s = (r, s1)"
      and rm: "RegisterMemory S alloc_size can_destroy_p s
         = (Inr (length (heap s1)),
            s1\<lparr>temporary_id := temporary_id s1 + 1,
               heap := heap s1 @
                 [Some \<lparr>readers = 0, block_id = temporary_id s1 + 1, state = BLOCK_LOADED,
                        buffer = Some (ManagedBuffer alloc_size can_destroy_p (temporary_id s1 + 1)),
                        eviction_timestamp = 0, can_destroy = can_destroy_p,
                        memory_usage = alloc_size + BLOCK_HEADER_SIZE S\<rparr>]\<rparr>)"
    from e ev [of "alloc_size + BLOCK_HEADER_SIZE S" "maximum_memory s"]
    have k1: "ids_kept s s1" by simp
    have "ids_kept s1 (snd (RegisterMemory S alloc_size can_destroy_p s))"
      using rm by (auto simp: ids_kept_def lookup_def nth_append)
    with k1 show ?thesis by (rule ids_kept_trans)
  next
    fix r s1 e
    assume "EvictBlocks S (alloc_size + BLOCK_HEADER_SIZE S) (maximum_memory s) s = (r, s1)"
      "RegisterMemory S alloc_size can_destroy_p s
              = (Inl e, s1\<lparr>temporary_id := temporary_id s1 + 1\<rparr>)"
    with ev [of "alloc_size + BLOCK_HEADER_SIZE S" "maximum_memory s"] show ?thesis
      by (simp add: ids_kept_def lookup_def)
  qed (use ev [of "alloc_size + BLOCK_HEADER_SIZE S" "maximum_memory s"] in auto)
qed

lemma Allocate_ids_kept: "ids_kept s (snd (Allocate S alloc_size s))"
proof -
  obtain r s1 where e: "RegisterMemory S alloc_size True s = (r, s1)"
    by (cases "RegisterMemory S alloc_size True s")
  with RegisterMemory_ids_kept [of s S alloc_size True]
  have k: "ids_kept s s1" by simp
  have "ids_kept s1 (snd (Allocate S alloc_size s))"
    using e by (cases r) (simp_all add: Allocate_def same_ids_kept [OF Pin_same_ids])
  with k show ?thesis by (rule ids_kept_trans)
qed

lemma BlockHandle_delete_ids_kept: "ids_kept s (snd (BlockHandle_delete S q s))"
proof (cases "lookup s q")
  case None
  then show ?thesis by (simp add: BlockHandle_delete_unfold)
next
  case (Some hq)
  have "length (heap (snd (BlockHandle_delete S q s))) = length (heap s)"
    using Some by (simp add: BlockHandle_delete_unfold Let_def)
  then show ?thesis
    by (auto simp: ids_kept_def BlockHandle_delete_lookup [OF Some] split: if_splits)
qed

lemma exec_ids_kept: "ids_kept s (snd (exec S op s))"
proof (cases op)
  case (Op_SetTemporaryDirectory d)
  then show ?thesis
    by (simp add: SetTemporaryDirectory_def ids_kept_def lookup_def)
qed (simp_all add: RegisterBlock_ids_kept RegisterMemory_ids_kept Allocate_ids_kept
        BlockHandle_delete_ids_kept same_ids_kept [OF ReAllocate_same_ids]
        same_ids_kept [OF Pin_same_ids] same_ids_kept [OF Unpin_same_ids]
        same_ids_kept [OF EvictBlocks_same_ids] same_ids_kept [OF SetLimit_same_ids])

lemma run_all_ids_kept: "ids_kept s (run_all S ops s)"
proof (induction ops arbitrary: s)
  case Nil
  show ?case by simp
next
  case (Cons op ops)
  from exec_ids_kept [of s S op] Cons [of "snd (exec S op s)"] show ?case
    by (simp add: ids_kept_trans)
qed

lemma run_all_reachable: "reachable S s \<Longrightarrow> reachable S (run_all S ops s)"
  by (induction ops arbitrary: s) (simp_all add: reachable_exec)

text \<open>
  As long as every destructor has returned before the next operation starts,
  \<open>RegisterBlock\<close> gives one handle per persistent id.  Once it has returned a
  handle for such an id, and after any further operations, as long as that
  handle is alive a second \<open>RegisterBlock\<close> of the id returns the same handle and
  changes nothing, and no other live handle carries the id.
\<close>
lemma RegisterBlock_idempotent_sequential:
  assumes "reachable S s" and "bid < MAXIMUM_BLOCK S"
    and "RegisterBlock S bid s = (p, s1)"
    and "lookup (run_all S ops s1) p \<noteq> None"
  shows "RegisterBlock S bid (run_all S ops s1) = (p, run_all S ops s1) \<and>
         (\<forall>q h. lookup (run_all S ops s1) q = Some h \<and> block_id h = bid \<longrightarrow> q = p)"
proof -
  let ?s2 = "run_all S ops s1"
  have r1: "reachable S s1"
    using reachable_exec [OF assms(1), of "Op_RegisterBlock bid"] assms(3) by simp
  then have g1: "registered S s1" by (rule reachable_registered)
  have g2: "registered S ?s2"
    using r1 by (intro reachable_registered run_all_reachable)
  have g0: "registered S s" using assms(1) by (rule reachable_registered)
  have p1: "p < length (heap s1) \<and> (\<exists>h1. lookup s1 p = Some h1 \<and> block_id h1 = bid)"
  proof -
    from RegisterBlock_cases [of s bid S]
    consider h where "blocks s bid = Some p" "lookup s p = Some h" "s1 = s"
      | "p = length (heap s)"
        "s1 = s\<lparr>heap := heap s @ [Some (BlockHandle_new S bid)],
                  blocks := (blocks s)(bid \<mapsto> length (heap s))\<rparr>"
      using assms(3) by auto
    then show ?thesis
    proof cases
      case 1
      with registered_entry(2) [OF g0 1(1,2)] lookup_Some_less [OF 1(2)] show ?thesis
        by simp
    next
      case 2
      then show ?thesis by (simp add: lookup_def BlockHandle_new_def)
    qed
  qed
  from assms(4) obtain h2 where h2: "lookup ?s2 p = Some h2" by auto
  with run_all_ids_kept [of s1 S ops] p1 have "block_id h2 = bid"
    by (auto simp: ids_kept_def)
  with registered_alive [OF g2 h2] assms(2) have e: "blocks ?s2 bid = Some p" by simp
  with h2 have "RegisterBlock S bid ?s2 = (p, ?s2)"
    by (simp add: RegisterBlock_def weak_lock_eq)
  moreover have "\<And>q h. lookup ?s2 q = Some h \<Longrightarrow> block_id h = bid \<Longrightarrow> q = p"
    using registered_alive [OF g2] assms(2) e by fastforce
  ultimately show ?thesis by blast
qed

section \<open>Registering a block whose former handle is being destroyed\<close>

lemma expired_block_eq:
  "expired_block =
     \<lparr>current_memory = 0, maximum_memory = 6, temp_directory = [],
      temp_directory_handle = None, queue = [], temporary_id = 1000,
      blocks = [7 \<mapsto> 0], heap = [None], files = Map.empty, block_manager = (\<lambda>_. [])\<rparr>"
  by (simp add: expired_block_def shared_ptr_release_def registered_block_def
      RegisterBlock_def new_manager_def BufferManager_new_def make_shared_def weak_lock_def
      lookup_def small_Storage_def)

lemma registered_again_eq:
  "registered_again =
     \<lparr>current_memory = 0, maximum_memory = 6, temp_directory = [],
      temp_directory_handle = None, queue = [], temporary_id = 1000,
      blocks = [7 \<mapsto> 1], heap = [None, Some (BlockHandle_new small_Storage 7)],
      files = Map.empty, block_manager = (\<lambda>_. [])\<rparr>"
  by (simp add: registered_again_def expired_block_eq RegisterBlock_def make_shared_def
      weak_lock_def lookup_def)

lemma late_destructor_eq:
  "late_destructor =
     \<lparr>current_memory = 0, maximum_memory = 6, temp_directory = [],
      temp_directory_handle = None, queue = [], temporary_id = 1000,
      blocks = Map.empty, heap = [None, Some (BlockHandle_new small_Storage 7)],
      files = Map.empty, block_manager = (\<lambda>_. [])\<rparr>"
  by (simp add: late_destructor_def registered_again_eq BlockHandle_destructor_def
      UnregisterBlock_def BlockHandle_new_def small_Storage_def)

text \<open>
  Claim C7 fails on the code.  The weak pointers to a handle expire when its last
  reference is dropped, and its destructor erases the registry entry of its id
  later (source lines 34 and 297-299), whatever that entry then points to.  A
  \<open>RegisterBlock\<close> in between replaces the expired entry by a new handle
  (lines 161-172), and the destructor of the old handle then erases the entry of
  the new one.  So for the persistent id 7: handle 0 is registered and released,
  \<open>RegisterBlock 7\<close> returns handle 1, the destructor of handle 0 leaves the
  registry without an entry for 7, and \<open>RegisterBlock 7\<close> returns handle 2 while
  handle 1 is alive: two live handles for block 7.
\<close>
theorem RegisterBlock_after_late_destructor_returns_second_handle:
  "7 < MAXIMUM_BLOCK small_Storage \<and>
   RegisterBlock small_Storage 7 (new_manager [] 6) = (0, registered_block) \<and>
   shared_ptr_release 0 registered_block
     = (Inr (BlockHandle_new small_Storage 7), expired_block) \<and>
   RegisterBlock small_Storage 7 expired_block = (1, registered_again) \<and>
   BlockHandle_destructor small_Storage (BlockHandle_new small_Storage 7) registered_again
     = late_destructor \<and>
   lookup late_destructor 1 = Some (BlockHandle_new small_Storage 7) \<and>
   blocks late_destructor 7 = None \<and>
   fst (RegisterBlock small_Storage 7 late_destructor) = 2 \<and>
   lookup (snd (RegisterBlock small_Storage 7 late_destructor)) 1
     = Some (BlockHandle_new small_Storage 7) \<and>
   lookup (snd (RegisterBlock small_Storage 7 late_destructor)) 2
     = Some (BlockHandle_new small_Storage 7) \<and>
   block_id (BlockHandle_new small_Storage 7) = 7"
proof -
  have a: "7 < MAXIMUM_BLOCK small_Storage"
    by (simp add: small_Storage_def)
  have b: "RegisterBlock small_Storage 7 (new_manager [] 6) = (0, registered_block)"
    by (simp add: registered_block_def RegisterBlock_def new_manager_def BufferManager_new_def
        make_shared_def)
  have c: "shared_ptr_release 0 registered_block
             = (Inr (BlockHandle_new small_Storage 7), expired_block)"
    by (simp add: expired_block_def shared_ptr_release_def registered_block_def
        RegisterBlock_def new_manager_def BufferManager_new_def make_shared_def lookup_def)
  have d: "RegisterBlock small_Storage 7 expired_block = (1, registered_again)"
    by (simp add: registered_again_def expired_block_eq RegisterBlock_def make_shared_def
        weak_lock_def lookup_def)
  have e: "BlockHandle_destructor small_Storage (BlockHandle_new small_Storage 7)
             registered_again = late_destructor"
    by (simp add: late_destructor_def)
  have f: "lookup late_destructor 1 = Some (BlockHandle_new small_Storage 7)"
    "blocks late_destructor 7 = None"
    by (simp_all add: late_destructor_eq lookup_def)
  have g: "RegisterBlock small_Storage 7 late_destructor =
             (2, late_destructor
                   \<lparr>heap := heap late_destructor @ [Some (BlockHandle_new small_Storage 7)],
                    blocks := (blocks late_destructor)(7 \<mapsto> 2)\<rparr>)"
    by (simp add: late_destructor_eq RegisterBlock_def make_shared_def numeral_2_eq_2)
  have h: "block_id (BlockHandle_new small_Storage 7) = 7"
    by (simp add: BlockHandle_new_def)
  have i: "fst (RegisterBlock small_Storage 7 late_destructor) = 2"
    by (simp add: g)
  have j: "lookup (snd (RegisterBlock small_Storage 7 late_destructor)) 1
             = Some (BlockHandle_new small_Storage 7)"
    "lookup (snd (RegisterBlock small_Storage 7 late_destructor)) 2
             = Some (BlockHandle_new small_Storage 7)"
    unfolding g by (simp_all add: late_destructor_eq lookup_def)
  from a b c d e f h i j show ?thesis
    by (simp only: simp_thms)
qed

section \<open>The memory budget\<close>

lemma sum_list_nat_update:
  fixes f :: "'a \<Rightarrow> nat"
  shows "p < length xs \<Longrightarrow>
    sum_list (map f (xs[p := y])) + f (xs ! p) = sum_list (map f xs) + f y"
proof (induction xs arbitrary: p)
  case Nil
  then show ?case by simp
next
  case (Cons x xs)
  then show ?case by (cases p) (simp_all add: add.assoc add.left_commute)
qed

lemma loaded_bytes_update [simp]:
  "loaded_bytes (s\<lparr>current_memory := c\<rparr>) = loaded_bytes s"
  "loaded_bytes (s\<lparr>maximum_memory := m\<rparr>) = loaded_bytes s"
  "loaded_bytes (s\<lparr>queue := q\<rparr>) = loaded_bytes s"
  "loaded_bytes (s\<lparr>files := f\<rparr>) = loaded_bytes s"
  "loaded_bytes (s\<lparr>temp_directory := d\<rparr>) = loaded_bytes s"
  "loaded_bytes (s\<lparr>temp_directory_handle := t\<rparr>) = loaded_bytes s"
  "loaded_bytes (s\<lparr>temporary_id := i\<rparr>) = loaded_bytes s"
  "loaded_bytes (s\<lparr>blocks := b\<rparr>) = loaded_bytes s"
  by (simp_all add: loaded_bytes_def)

lemma loaded_bytes_store:
  "lookup s p = Some h \<Longrightarrow>
     loaded_bytes (store p h' s) + unat (accounted (Some h))
       = loaded_bytes s + unat (accounted (Some h'))"
  using sum_list_nat_update [of p "heap s" "\<lambda>e. unat (accounted e)" "Some h'"]
  by (auto simp: loaded_bytes_def store_def lookup_def split: if_splits)

lemma loaded_bytes_append:
  "loaded_bytes (s\<lparr>heap := heap s @ [e]\<rparr>) = loaded_bytes s + unat (accounted e)"
  by (simp add: loaded_bytes_def)

lemma loaded_bytes_delete:
  "lookup s p = Some h \<Longrightarrow>
     loaded_bytes (s\<lparr>heap := (heap s)[p := None]\<rparr>) + unat (accounted (Some h)) = loaded_bytes s"
  using sum_list_nat_update [of p "heap s" "\<lambda>e. unat (accounted e)" None]
  by (auto simp: loaded_bytes_def lookup_def accounted_def split: if_splits)

lemma usage_bounded_update [simp]:
  "usage_bounded (s\<lparr>current_memory := c\<rparr>) = usage_bounded s"
  "usage_bounded (s\<lparr>maximum_memory := m\<rparr>) = usage_bounded s"
  "usage_bounded (s\<lparr>queue := q\<rparr>) = usage_bounded s"
  "usage_bounded (s\<lparr>files := f\<rparr>) = usage_bounded s"
  "usage_bounded (s\<lparr>temp_directory := d\<rparr>) = usage_bounded s"
  "usage_bounded (s\<lparr>temp_directory_handle := t\<rparr>) = usage_bounded s"
  "usage_bounded (s\<lparr>temporary_id := i\<rparr>) = usage_bounded s"
  "usage_bounded (s\<lparr>blocks := b\<rparr>) = usage_bounded s"
  by (simp_all add: usage_bounded_def)

lemma usage_bounded_lookup:
  "usage_bounded s \<Longrightarrow> lookup s p = Some h \<Longrightarrow> unat (memory_usage h) < 2 ^ 63"
  by (simp add: usage_bounded_def)

lemma usage_bounded_store:
  "usage_bounded s \<Longrightarrow> unat (memory_usage h) < 2 ^ 63 \<Longrightarrow> usage_bounded (store p h s)"
  by (simp add: usage_bounded_def)

lemma usage_bounded_evicted_from:
  assumes "usage_bounded s" "evicted_from s s'"
  shows "usage_bounded s'"
  unfolding usage_bounded_def
proof (intro allI impI)
  fix p h'
  assume l: "lookup s' p = Some h'"
  from assms(2) have "lookup s' p = lookup s p \<or>
      (\<exists>h b. lookup s p = Some h \<and> state h = BLOCK_LOADED \<and> readers h = 0 \<and>
             lookup s' p = Some (h\<lparr>state := BLOCK_UNLOADED, buffer := b\<rparr>))"
    by (simp add: evicted_from_def)
  then show "unat (memory_usage h') < 2 ^ 63"
  proof
    assume "lookup s' p = lookup s p"
    with l usage_bounded_lookup [OF assms(1), of p h'] show ?thesis by simp
  next
    assume "\<exists>h b. lookup s p = Some h \<and> state h = BLOCK_LOADED \<and> readers h = 0 \<and>
             lookup s' p = Some (h\<lparr>state := BLOCK_UNLOADED, buffer := b\<rparr>)"
    then obtain h b where "lookup s p = Some h"
      "lookup s' p = Some (h\<lparr>state := BLOCK_UNLOADED, buffer := b\<rparr>)" by blast
    with l usage_bounded_lookup [OF assms(1), of p h] show ?thesis by auto
  qed
qed

text \<open>A loaded handle's bytes are part of the sum.\<close>

lemma loaded_bytes_ge:
  assumes "lookup s p = Some h" "state h = BLOCK_LOADED"
  shows "unat (memory_usage h) \<le> loaded_bytes s"
proof -
  from assms(1) have "Some h \<in> set (heap s)"
    by (auto simp: lookup_def in_set_conv_nth split: if_splits)
  then have "unat (accounted (Some h)) \<in> set (map (\<lambda>e. unat (accounted e)) (heap s))"
    by (simp add: image_iff) blast
  then have "unat (accounted (Some h)) \<le> loaded_bytes s"
    unfolding loaded_bytes_def by (rule member_le_sum_list) simp_all
  with assms(2) show ?thesis by (simp add: accounted_def)
qed

lemma Unload_budget:
  assumes "Unload S q s = (Inr u, s')"
    and "loaded_bytes s + R \<le> unat (current_memory s)"
  shows "loaded_bytes s' + R \<le> unat (current_memory s') \<and>
         unat (current_memory s') \<le> unat (current_memory s)"
proof (cases "lookup s q")
  case None
  with assms show ?thesis by (simp add: Unload_def)
next
  case (Some h)
  from Unload_cases [OF Some, of S] assms(1) show ?thesis
  proof (elim disjE exE conjE)
    fix f t
    assume r: "Unload S q s =
             (Inr (), (store q (h\<lparr>state := BLOCK_UNLOADED, buffer := None\<rparr>) s)
                \<lparr>files := f, temp_directory_handle := t,
                 current_memory := current_memory s - memory_usage h\<rparr>)"
      and ld: "state h = BLOCK_LOADED"
    from loaded_bytes_ge [OF Some ld] assms(2)
    have le: "unat (memory_usage h) \<le> unat (current_memory s)" by simp
    then have sub: "unat (current_memory s - memory_usage h)
        = unat (current_memory s) - unat (memory_usage h)"
      by (simp add: unat_sub word_le_nat_alt)
    from loaded_bytes_store [OF Some, of "h\<lparr>state := BLOCK_UNLOADED, buffer := None\<rparr>"] ld
    have "loaded_bytes (store q (h\<lparr>state := BLOCK_UNLOADED, buffer := None\<rparr>) s)
            + unat (memory_usage h) = loaded_bytes s"
      by (simp add: accounted_def)
    with r assms sub le show ?thesis by auto
  qed (use assms in auto)
qed

lemma evict_node_budget:
  assumes "evict_node S node s = (Inr u, s')"
    and "loaded_bytes s + R \<le> unat (current_memory s)"
  shows "loaded_bytes s' + R \<le> unat (current_memory s') \<and>
         unat (current_memory s') \<le> unat (current_memory s)"
proof -
  from evict_node_cases [of S node s] assms(1)
  have "s' = s \<or> Unload S (handle node) s = (Inr u, s')"
    by auto
  then show ?thesis
    using assms(2) by (auto dest: Unload_budget)
qed

lemma EvictBlocks_loop_budget:
  "EvictBlocks_loop S extra_memory memory_limit s = (Inr ok, s') \<Longrightarrow>
   loaded_bytes s + unat extra_memory \<le> unat (current_memory s) \<Longrightarrow>
     (if ok then loaded_bytes s' + unat extra_memory \<le> unat (current_memory s') \<and>
                 current_memory s' \<le> memory_limit \<and>
                 unat (current_memory s') \<le> unat (current_memory s)
      else loaded_bytes s' \<le> unat (current_memory s') \<and>
           unat (current_memory s') + unat extra_memory \<le> unat (current_memory s))"
proof (induction S extra_memory memory_limit s rule: EvictBlocks_loop.induct)
  case (1 S extra_memory memory_limit s)
  note res = "1.prems"(1) and acc = "1.prems"(2)
  show ?case
  proof (cases "memory_limit < current_memory s")
    case False
    with res acc show ?thesis by (auto simp: EvictBlocks_loop.simps)
  next
    case over: True
    show ?thesis
    proof (cases "queue s")
      case Nil
      from acc have "unat extra_memory \<le> unat (current_memory s)" by simp
      then have "unat (current_memory s - extra_memory)
                   = unat (current_memory s) - unat extra_memory"
        by (simp add: unat_sub word_le_nat_alt)
      with Nil over res acc show ?thesis by (auto simp: EvictBlocks_loop.simps)
    next
      case (Cons node rest)
      obtain r s1 where e: "evict_node S node (s\<lparr>queue := rest\<rparr>) = (r, s1)"
        by (cases "evict_node S node (s\<lparr>queue := rest\<rparr>)")
      show ?thesis
      proof (cases r)
        case (Inl err)
        with over Cons e res show ?thesis by (simp add: EvictBlocks_loop.simps)
      next
        case (Inr u)
        with over Cons e res
        have l: "EvictBlocks_loop S extra_memory memory_limit s1 = (Inr ok, s')"
          by (simp add: EvictBlocks_loop.simps)
        from e Inr acc
        have a1: "loaded_bytes s1 + unat extra_memory \<le> unat (current_memory s1) \<and>
                  unat (current_memory s1) \<le> unat (current_memory s)"
          using evict_node_budget [of S node "s\<lparr>queue := rest\<rparr>" u s1 "unat extra_memory"]
          by simp
        from "1.IH" [OF over Cons e [symmetric] Inr l] a1 show ?thesis
          by (auto split: if_splits)
      qed
    qed
  qed
qed

lemma EvictBlocks_budget:
  assumes "EvictBlocks S extra_memory memory_limit s = (Inr ok, s')"
    and "loaded_bytes s \<le> unat (current_memory s)"
    and "unat (current_memory s) + unat extra_memory < 2 ^ 64"
  shows "if ok then loaded_bytes s' + unat extra_memory \<le> unat (current_memory s') \<and>
                 current_memory s' \<le> memory_limit
         else loaded_bytes s' \<le> unat (current_memory s') \<and>
              unat (current_memory s') \<le> unat (current_memory s)"
proof -
  have add: "unat (current_memory s + extra_memory)
               = unat (current_memory s) + unat extra_memory"
    using assms(3) by (simp add: unat_add_lem [THEN iffD1])
  from EvictBlocks_loop_budget [of S extra_memory memory_limit
      "s\<lparr>current_memory := current_memory s + extra_memory\<rparr>" ok s']
    assms(1,2) add
  show ?thesis
    by (auto simp: EvictBlocks_def split: if_splits)
qed

lemma uint_less_power:
  fixes a :: "'a::len word"
  shows "unat a < 2 ^ n \<Longrightarrow> uint a < 2 ^ n"
  by (metis nat_less_numeral_power_cancel_iff unat_eq_nat_uint)

lemma sint_sub_no_overflow:
  fixes a b :: "'a::len word"
  assumes "unat a < 2 ^ (LENGTH('a) - Suc 0)" "unat b < 2 ^ (LENGTH('a) - Suc 0)"
  shows "sint (a - b) = uint a - uint b"
proof -
  let ?n = "LENGTH('a) - Suc 0"
  have "sint (a - b) = signed_take_bit ?n (uint (a - b))"
    by (simp only: sint_uint)
  also have "uint (a - b) = take_bit LENGTH('a) (uint a - uint b)"
    by (simp add: uint_word_ariths take_bit_eq_mod)
  also have "signed_take_bit ?n (take_bit LENGTH('a) (uint a - uint b))
               = signed_take_bit ?n (uint a - uint b)"
    by (simp add: signed_take_bit_take_bit)
  also have "\<dots> = uint a - uint b"
  proof (rule signed_take_bit_int_eq_self)
    have "uint a < 2 ^ ?n" "uint b < 2 ^ ?n" "0 \<le> uint a" "0 \<le> uint b"
      using assms by (simp_all add: uint_less_power)
    then show "- (2 ^ ?n) \<le> uint a - uint b" "uint a - uint b < 2 ^ ?n"
      by linarith+
  qed
  finally show ?thesis .
qed

lemma sint_sub_small:
  fixes a b :: idx_t
  assumes "unat a < 2 ^ 63" "unat b < 2 ^ 63"
  shows "(0 < sint (a - b)) = (unat b < unat a)" "(sint (a - b) < 0) = (unat a < unat b)"
proof -
  have "sint (a - b) = uint a - uint b"
    using assms sint_sub_no_overflow [of a b] by simp
  then show "(0 < sint (a - b)) = (unat b < unat a)" "(sint (a - b) < 0) = (unat a < unat b)"
    by (simp_all add: word_less_nat_alt [symmetric] word_less_def)
qed

lemma unat_sub_small:
  fixes a b :: idx_t
  assumes "unat b \<le> unat a"
  shows "unat (a - b) = unat a - unat b"
  using assms by (simp add: unat_sub word_le_nat_alt)

lemma unat_add_small:
  fixes a b :: idx_t
  assumes "unat a + unat b < 2 ^ 64"
  shows "unat (a + b) = unat a + unat b"
  using assms by (simp add: unat_add_lem [THEN iffD1])

lemma heap_append_facts:
  assumes "heap s' = heap s @ [Some h]"
  shows "loaded_bytes s' = loaded_bytes s + unat (accounted (Some h))"
    and "usage_bounded s \<Longrightarrow> unat (memory_usage h) < 2 ^ 63 \<Longrightarrow> usage_bounded s'"
    and "readers_loaded s \<Longrightarrow> (0 < readers h \<longrightarrow> state h = BLOCK_LOADED)
           \<Longrightarrow> readers_loaded s'"
  using assms
  by (auto simp: loaded_bytes_def usage_bounded_def readers_loaded_def lookup_def nth_append
      split: if_splits)

lemma loaded_bytes_store_same:
  "lookup s p = Some h \<Longrightarrow> accounted (Some h') = accounted (Some h)
     \<Longrightarrow> loaded_bytes (store p h' s) = loaded_bytes s"
  using loaded_bytes_store [of s p h h'] by simp

lemma budget_invI:
  "current_memory s \<le> maximum_memory s \<Longrightarrow> loaded_bytes s \<le> unat (current_memory s)
     \<Longrightarrow> unat (maximum_memory s) < 2 ^ 63 \<Longrightarrow> usage_bounded s \<Longrightarrow> readers_loaded s
     \<Longrightarrow> budget_inv s"
  by (simp add: budget_inv_def)

lemma budget_invD:
  assumes "budget_inv s"
  shows "current_memory s \<le> maximum_memory s" "loaded_bytes s \<le> unat (current_memory s)"
    "unat (maximum_memory s) < 2 ^ 63" "usage_bounded s" "readers_loaded s"
    "unat (current_memory s) < 2 ^ 63"
  using assms by (auto simp: budget_inv_def word_le_nat_alt)

text \<open>What a returning EvictBlocks leaves, started within the budget.\<close>

lemma EvictBlocks_from_budget:
  assumes "budget_inv s" "unat extra_memory < 2 ^ 63"
    and "EvictBlocks S extra_memory memory_limit s = (Inr ok, s')"
  shows "usage_bounded s'" "readers_loaded s'" "maximum_memory s' = maximum_memory s"
    "if ok then loaded_bytes s' + unat extra_memory \<le> unat (current_memory s') \<and>
                 current_memory s' \<le> memory_limit
     else loaded_bytes s' \<le> unat (current_memory s') \<and>
          unat (current_memory s') \<le> unat (current_memory s)"
proof -
  have ev: "evicted_from s s'"
    using EvictBlocks_evicted_from [of s S extra_memory memory_limit] assms(3) by simp
  show "usage_bounded s'"
    using budget_invD(4) [OF assms(1)] ev by (rule usage_bounded_evicted_from)
  show "readers_loaded s'"
    using budget_invD(5) [OF assms(1)] ev by (rule readers_loaded_evicted_from)
  show "maximum_memory s' = maximum_memory s"
    using EvictBlocks_frame(1) [of S extra_memory memory_limit s] assms(3) by simp
  have "unat (current_memory s) + unat extra_memory < 2 ^ 64"
    using budget_invD(6) [OF assms(1)] assms(2) by simp
  from EvictBlocks_budget [OF assms(3) budget_invD(2) [OF assms(1)] this]
  show "if ok then loaded_bytes s' + unat extra_memory \<le> unat (current_memory s') \<and>
                 current_memory s' \<le> memory_limit
     else loaded_bytes s' \<le> unat (current_memory s') \<and>
          unat (current_memory s') \<le> unat (current_memory s)" .
qed

lemma RegisterBlock_budget_inv:
  assumes "budget_inv s" "unat (BLOCK_ALLOC_SIZE S) < 2 ^ 63"
  shows "budget_inv (snd (RegisterBlock S bid s))"
proof -
  let ?s' = "s\<lparr>heap := heap s @ [Some (BlockHandle_new S bid)],
              blocks := (blocks s)(bid \<mapsto> length (heap s))\<rparr>"
  have h: "heap ?s' = heap s @ [Some (BlockHandle_new S bid)]" by simp
  have "budget_inv ?s'"
    using heap_append_facts [OF h] budget_invD [OF assms(1)] assms(2)
    by (intro budget_invI) (simp_all add: BlockHandle_new_def accounted_def)
  with RegisterBlock_cases [of s bid S] assms(1) show ?thesis
    by auto
qed

lemma RegisterMemory_budget_inv:
  assumes "budget_inv s" "unat alloc_size + unat (BLOCK_HEADER_SIZE S) < 2 ^ 63"
    and "RegisterMemory S alloc_size can_destroy_p s = (Inr p, s')"
  shows "budget_inv s'"
proof -
  let ?e = "alloc_size + BLOCK_HEADER_SIZE S"
  have e: "unat ?e < 2 ^ 63"
    using assms(2) unat_add_small [of alloc_size "BLOCK_HEADER_SIZE S"] by simp
  from RegisterMemory_cases [of S alloc_size s can_destroy_p] assms(3)
  obtain s1 where ev: "EvictBlocks S ?e (maximum_memory s) s = (Inr True, s1)"
    and s': "s' = s1\<lparr>temporary_id := temporary_id s1 + 1,
               heap := heap s1 @
                 [Some \<lparr>readers = 0, block_id = temporary_id s1 + 1, state = BLOCK_LOADED,
                        buffer = Some (ManagedBuffer alloc_size can_destroy_p (temporary_id s1 + 1)),
                        eviction_timestamp = 0, can_destroy = can_destroy_p,
                        memory_usage = ?e\<rparr>]\<rparr>"
    by auto
  let ?h = "\<lparr>readers = 0, block_id = temporary_id s1 + 1, state = BLOCK_LOADED,
                        buffer = Some (ManagedBuffer alloc_size can_destroy_p (temporary_id s1 + 1)),
                        eviction_timestamp = 0, can_destroy = can_destroy_p,
                        memory_usage = ?e\<rparr>"
  have h: "heap s' = heap s1 @ [Some ?h]" by (simp add: s')
  note f = EvictBlocks_from_budget [OF assms(1) e ev]
  show ?thesis
    using heap_append_facts [OF h] f budget_invD(3) [OF assms(1)] e
    by (intro budget_invI) (simp_all add: s' accounted_def)
qed

lemma Pin_budget_inv:
  assumes "budget_inv s" "Pin S p s = (Inr r, s')"
  shows "budget_inv s'"
proof (cases "lookup s p")
  case None
  with assms show ?thesis by (simp add: Pin_def)
next
  case (Some h)
  from Pin_cases [OF Some, of S] assms(2) show ?thesis
  proof (elim disjE exE conjE)
    fix r0
    assume ld: "state h = BLOCK_LOADED"
      and "Pin S p s = (r0, store p (h\<lparr>readers := readers h + 1\<rparr>) s)"
    with assms(2) have s': "s' = store p (h\<lparr>readers := readers h + 1\<rparr>) s" by simp
    from loaded_bytes_store [OF Some, of "h\<lparr>readers := readers h + 1\<rparr>"] ld
    have "loaded_bytes s' = loaded_bytes s"
      by (simp add: s' accounted_def)
    with budget_invD [OF assms(1)] usage_bounded_lookup [OF _ Some] ld show ?thesis
      by (intro budget_invI) (simp_all add: s' usage_bounded_store readers_loaded_store)
  next
    fix r0 s1 r' b
    assume ev0: "EvictBlocks S (memory_usage h) (maximum_memory s) s = (r0, s1)"
      and r0: "r0 = Inr True" and ul: "state h = BLOCK_UNLOADED"
      and "Pin S p s = (r', store p (h\<lparr>readers := 1, state := BLOCK_LOADED, buffer := b\<rparr>) s1)"
    with assms(2)
    have s': "s' = store p (h\<lparr>readers := 1, state := BLOCK_LOADED, buffer := b\<rparr>) s1"
      by simp
    from ev0 r0 have ev: "EvictBlocks S (memory_usage h) (maximum_memory s) s = (Inr True, s1)"
      by simp
    have u: "unat (memory_usage h) < 2 ^ 63"
      using usage_bounded_lookup [OF budget_invD(4) [OF assms(1)] Some] .
    note f = EvictBlocks_from_budget [OF assms(1) u ev]
    have l1: "lookup s1 p = Some h"
      using EvictBlocks_evicted_from [of s S "memory_usage h" "maximum_memory s"] ev Some ul
      by (auto intro: evicted_from_unloaded)
    from loaded_bytes_store [OF l1, of "h\<lparr>readers := 1, state := BLOCK_LOADED, buffer := b\<rparr>"] ul
    have "loaded_bytes s' = loaded_bytes s1 + unat (memory_usage h)"
      by (simp add: s' accounted_def)
    with f budget_invD(3) [OF assms(1)] u show ?thesis
      by (intro budget_invI) (simp_all add: s' usage_bounded_store readers_loaded_store)
  qed auto
qed

lemma Allocate_budget_inv:
  assumes "budget_inv s" "unat alloc_size + unat (BLOCK_HEADER_SIZE S) < 2 ^ 63"
    and "Allocate S alloc_size s = (Inr r, s')"
  shows "budget_inv s'"
proof -
  obtain r1 s1 where e: "RegisterMemory S alloc_size True s = (r1, s1)"
    by (cases "RegisterMemory S alloc_size True s")
  with assms(3) obtain p where p: "r1 = Inr p" and pin: "Pin S p s1 = (Inr r, s')"
    by (cases r1) (simp_all add: Allocate_def)
  from RegisterMemory_budget_inv [OF assms(1,2)] e p have "budget_inv s1" by simp
  then show ?thesis using pin by (rule Pin_budget_inv)
qed

lemma Unpin_budget_inv:
  assumes "budget_inv s" "Unpin p s = (Inr r, s')"
  shows "budget_inv s'"
proof (cases "lookup s p")
  case None
  with assms show ?thesis by (simp add: Unpin_def)
next
  case (Some h)
  have st: "\<And>h' :: BlockHandle. state h' = state h \<Longrightarrow> memory_usage h' = memory_usage h \<Longrightarrow>
      readers h' \<le> readers h \<Longrightarrow> budget_inv (store p h' s)"
  proof -
    fix h' :: BlockHandle
    assume a: "state h' = state h" "memory_usage h' = memory_usage h" "readers h' \<le> readers h"
    have "loaded_bytes (store p h' s) = loaded_bytes s"
      using Some by (rule loaded_bytes_store_same) (simp add: accounted_def a)
    moreover have "0 < readers h' \<longrightarrow> state h' = BLOCK_LOADED"
      using a budget_invD(5) [OF assms(1)] Some by (auto simp: readers_loaded_def)
    ultimately show "budget_inv (store p h' s)"
      using budget_invD [OF assms(1)] usage_bounded_lookup [OF _ Some] a
      by (intro budget_invI) (simp_all add: usage_bounded_store readers_loaded_store)
  qed
  have "budget_inv (snd (Unpin p s))"
    using Some assms(1) st [of "h\<lparr>readers := readers h - 1\<rparr>"]
      st [of "h\<lparr>readers := readers h - 1, eviction_timestamp := eviction_timestamp h + 1\<rparr>"]
    by (auto simp: Unpin_def Let_def budget_inv_def)
  with assms(2) show ?thesis by simp
qed

lemma ReAllocate_budget_inv:
  assumes "budget_inv s" "unat alloc_size + unat (BLOCK_HEADER_SIZE S) < 2 ^ 63"
    and "ReAllocate S p alloc_size s = (Inr r, s')"
  shows "budget_inv s'"
proof -
  let ?total = "alloc_size + BLOCK_HEADER_SIZE S"
  have total: "unat ?total < 2 ^ 63"
    using assms(2) unat_add_small [of alloc_size "BLOCK_HEADER_SIZE S"] by simp
  from ReAllocate_cases [of S p alloc_size s] assms(3)
  obtain h s1 b where h: "lookup s p = Some h" "readers h = 1" and l1: "lookup s1 p = Some h"
    and s1: "if 0 < sint (?total - memory_usage h)
         then EvictBlocks S (?total - memory_usage h) (maximum_memory s) s = (Inr True, s1)
         else s1 = s"
    and s': "s' = (store p (h\<lparr>buffer := Some (Resize b alloc_size),
                         memory_usage := ?total\<rparr>) s1)
               \<lparr>current_memory :=
                  (if sint (?total - memory_usage h) < 0
                   then current_memory s1 + (?total - memory_usage h)
                   else current_memory s1)\<rparr>"
    by auto
  let ?h' = "h\<lparr>buffer := Some (Resize b alloc_size), memory_usage := ?total\<rparr>"
  let ?req = "?total - memory_usage h"
  have ld: "state h = BLOCK_LOADED"
    using budget_invD(5) [OF assms(1)] h by (auto simp: readers_loaded_def)
  have u: "unat (memory_usage h) < 2 ^ 63"
    using usage_bounded_lookup [OF budget_invD(4) [OF assms(1)] h(1)] .
  note sg = sint_sub_small [OF total u]
  have lb: "loaded_bytes (store p ?h' s1) + unat (memory_usage h)
              = loaded_bytes s1 + unat ?total"
    using loaded_bytes_store [OF l1, of ?h'] ld by (simp add: accounted_def)
  have rl: "\<And>s0. readers_loaded s0 \<Longrightarrow> readers_loaded (store p ?h' s0)"
    using ld by (simp add: readers_loaded_store)
  have ub: "\<And>s0. usage_bounded s0 \<Longrightarrow> usage_bounded (store p ?h' s0)"
    using total by (simp add: usage_bounded_store)
  consider (grow) "unat (memory_usage h) < unat ?total"
    | (shrink) "unat ?total < unat (memory_usage h)"
    | (same) "unat ?total = unat (memory_usage h)"
    by linarith
  then show ?thesis
  proof cases
    case grow
    with sg s1 have ev: "EvictBlocks S ?req (maximum_memory s) s = (Inr True, s1)"
      and pos: "\<not> sint ?req < 0"
      by auto
    have req: "unat ?req = unat ?total - unat (memory_usage h)"
      using grow by (simp add: unat_sub_small)
    with total have "unat ?req < 2 ^ 63" by simp
    note f = EvictBlocks_from_budget [OF assms(1) this ev]
    from f(4) have "loaded_bytes s1 + unat ?req \<le> unat (current_memory s1)"
      by simp
    with lb req grow have "loaded_bytes (store p ?h' s1) \<le> unat (current_memory s1)"
      by linarith
    with f budget_invD(3) [OF assms(1)] pos show ?thesis
      by (intro budget_invI) (simp_all add: s' rl ub)
  next
    case shrink
    with sg s1 have s1s: "s1 = s" and neg: "sint ?req < 0"
      by auto
    have le: "unat (memory_usage h) \<le> unat (current_memory s)"
      using loaded_bytes_ge [OF h(1) ld] budget_invD(2) [OF assms(1)] by simp
    have eq: "current_memory s + ?req = current_memory s - (memory_usage h - ?total)"
      by simp
    have d: "unat (memory_usage h - ?total) = unat (memory_usage h) - unat ?total"
      using shrink by (simp add: unat_sub_small)
    have "unat (memory_usage h - ?total) \<le> unat (current_memory s)"
      using d le by simp
    then have "unat (current_memory s - (memory_usage h - ?total))
        = unat (current_memory s) - unat (memory_usage h - ?total)"
      by (rule unat_sub_small)
    then have c: "unat (current_memory s + ?req)
        = unat (current_memory s) - (unat (memory_usage h) - unat ?total)"
      by (simp only: eq d)
    have "loaded_bytes (store p ?h' s) \<le> unat (current_memory s + ?req)"
      using lb c le shrink budget_invD(2) [OF assms(1)] loaded_bytes_ge [OF h(1) ld]
      by (simp add: s1s)
    moreover have "current_memory s + ?req \<le> maximum_memory s"
      using c budget_invD(1) [OF assms(1)] by (simp add: word_le_nat_alt)
    ultimately show ?thesis
      using budget_invD [OF assms(1)] neg
      by (intro budget_invI) (simp_all add: s' s1s rl ub)
  next
    case same
    with sg s1 have s1s: "s1 = s" and z: "\<not> sint ?req < 0"
      by auto
    from lb same have "loaded_bytes (store p ?h' s) = loaded_bytes s"
      by (simp add: s1s)
    with budget_invD [OF assms(1)] z show ?thesis
      by (intro budget_invI) (simp_all add: s' s1s rl ub)
  qed
qed

lemma EvictBlocks_budget_inv:
  assumes "budget_inv s" "unat extra_memory < 2 ^ 63" "memory_limit \<le> maximum_memory s"
    and "EvictBlocks S extra_memory memory_limit s = (Inr ok, s')"
  shows "budget_inv s'"
proof -
  note f = EvictBlocks_from_budget [OF assms(1,2,4)]
  show ?thesis
  proof (cases ok)
    case True
    with f assms(3) budget_invD(3) [OF assms(1)] show ?thesis
      by (intro budget_invI) auto
  next
    case False
    with f budget_invD(1,3) [OF assms(1)] show ?thesis
      by (intro budget_invI) (auto simp: word_le_nat_alt)
  qed
qed

lemma SetLimit_budget_inv:
  assumes "budget_inv s" "unat limit < 2 ^ 63"
    and "SetLimit S limit s = (Inr r, s')"
  shows "budget_inv s'"
proof -
  obtain r1 s1 where e: "EvictBlocks S 0 limit s = (r1, s1)"
    by (cases "EvictBlocks S 0 limit s")
  with assms(3) have r1: "r1 = Inr True"
    by (cases r1) (auto simp: SetLimit_def split: if_splits)
  with e have ev: "EvictBlocks S 0 limit s = (Inr True, s1)" by simp
  have "unat (0 :: idx_t) < 2 ^ 63" by simp
  note f = EvictBlocks_from_budget [OF assms(1) this ev]
  from f(4) have c: "current_memory s1 \<le> limit" by simp
  then have "EvictBlocks S 0 limit (s1\<lparr>maximum_memory := limit\<rparr>)
                   = (Inr True, s1\<lparr>maximum_memory := limit\<rparr>)"
    by (simp add: SetLimit_second_pass)
  with ev assms(3) have s': "s' = s1\<lparr>maximum_memory := limit\<rparr>"
    by (simp add: SetLimit_def Let_def)
  from f c assms(2) show ?thesis
    by (intro budget_invI) (simp_all add: s')
qed

lemma BlockHandle_delete_budget_inv:
  assumes "budget_inv s" "BlockHandle_delete S p s = (Inr r, s')"
  shows "budget_inv s'"
proof (cases "lookup s p")
  case None
  with assms show ?thesis by (simp add: BlockHandle_delete_unfold)
next
  case (Some h)
  let ?c = "if state h = BLOCK_LOADED then current_memory s - memory_usage h
            else current_memory s"
  have hp: "heap s' = (heap s)[p := None]"
    and cm: "current_memory s' = ?c" and mm: "maximum_memory s' = maximum_memory s"
    using Some assms(2)
    by (auto simp: BlockHandle_delete_unfold Let_def UnregisterBlock_def DeleteTemporaryFile_def)
  have lk: "\<And>q. lookup s' q = (if q = p then None else lookup s q)"
    using BlockHandle_delete_lookup [OF Some, of S] assms(2) by simp
  have lb: "loaded_bytes s' + unat (accounted (Some h)) = loaded_bytes s"
    using loaded_bytes_delete [OF Some] hp by (simp add: loaded_bytes_def)
  have le: "state h = BLOCK_LOADED \<Longrightarrow> unat (memory_usage h) \<le> unat (current_memory s)"
    using loaded_bytes_ge [OF Some] budget_invD(2) [OF assms(1)] by simp
  have c: "unat ?c + unat (accounted (Some h)) = unat (current_memory s)"
    using le by (simp add: accounted_def unat_sub_small)
  show ?thesis
  proof (intro budget_invI)
    show "current_memory s' \<le> maximum_memory s'"
      using c cm mm budget_invD(1) [OF assms(1)] by (simp add: word_le_nat_alt)
    show "loaded_bytes s' \<le> unat (current_memory s')"
      using c cm lb budget_invD(2) [OF assms(1)] by simp
    show "unat (maximum_memory s') < 2 ^ 63"
      using mm budget_invD(3) [OF assms(1)] by simp
    show "usage_bounded s'"
      using budget_invD(4) [OF assms(1)] lk by (auto simp: usage_bounded_def split: if_splits)
    show "readers_loaded s'"
      using budget_invD(5) [OF assms(1)] lk by (auto simp: readers_loaded_def split: if_splits)
  qed
qed

lemma SetTemporaryDirectory_budget_inv:
  assumes "budget_inv s" "SetTemporaryDirectory d s = (Inr r, s')"
  shows "budget_inv s'"
  using assms by (auto simp: SetTemporaryDirectory_def budget_inv_def split: if_splits)

lemma exec_budget_inv:
  assumes "budget_inv s" "unat (BLOCK_ALLOC_SIZE S) < 2 ^ 63" "admissible S s op"
    and "exec S op s = (Inr r, s')"
  shows "budget_inv s'"
proof (cases op)
  case (Op_RegisterBlock bid)
  with assms show ?thesis using RegisterBlock_budget_inv [of s S bid] by auto
next
  case (Op_RegisterMemory n c)
  with assms(4) obtain x where "RegisterMemory S n c s = (Inr x, s')"
    by (cases "RegisterMemory S n c s") (auto simp: discard_def split: sum.splits)
  with Op_RegisterMemory assms(1,3) show ?thesis
    by (auto simp: admissible_def intro: RegisterMemory_budget_inv)
next
  case (Op_Allocate n)
  with assms(4) obtain x where "Allocate S n s = (Inr x, s')"
    by (cases "Allocate S n s") (auto simp: discard_def split: sum.splits)
  with Op_Allocate assms(1,3) show ?thesis
    by (auto simp: admissible_def intro: Allocate_budget_inv)
next
  case (Op_ReAllocate p n)
  with assms show ?thesis
    by (auto simp: admissible_def intro: ReAllocate_budget_inv)
next
  case (Op_Pin p)
  with assms(4) obtain x where "Pin S p s = (Inr x, s')"
    by (cases "Pin S p s") (auto simp: discard_def split: sum.splits)
  with assms(1) show ?thesis by (auto intro: Pin_budget_inv)
next
  case (Op_Unpin p)
  with assms show ?thesis by (auto intro: Unpin_budget_inv)
next
  case (Op_EvictBlocks e l)
  with assms(4) obtain x where "EvictBlocks S e l s = (Inr x, s')"
    by (cases "EvictBlocks S e l s") (auto simp: discard_def split: sum.splits)
  with Op_EvictBlocks assms(1,3) show ?thesis
    by (auto simp: admissible_def intro: EvictBlocks_budget_inv)
next
  case (Op_SetLimit l)
  with assms show ?thesis
    by (auto simp: admissible_def intro: SetLimit_budget_inv)
next
  case (Op_SetTemporaryDirectory d)
  with assms show ?thesis by (auto intro: SetTemporaryDirectory_budget_inv)
next
  case (Op_delete p)
  with assms show ?thesis by (auto intro: BlockHandle_delete_budget_inv)
qed

lemma run_budget_inv:
  "budget_inv s \<Longrightarrow> unat (BLOCK_ALLOC_SIZE S) < 2 ^ 63 \<Longrightarrow> admissible_run S ops s
     \<Longrightarrow> run S ops s = Some s' \<Longrightarrow> budget_inv s'"
proof (induction ops arbitrary: s)
  case Nil
  then show ?case by simp
next
  case (Cons op ops)
  obtain r s1 where e: "exec S op s = (r, s1)"
    by (cases "exec S op s")
  with Cons.prems(4) obtain u where r: "r = Inr u" and rest: "run S ops s1 = Some s'"
    by (cases r) simp_all
  from Cons.prems(3) e have a: "admissible S s op" "admissible_run S ops s1"
    by simp_all
  from exec_budget_inv [OF Cons.prems(1,2) a(1)] e r have "budget_inv s1" by simp
  from Cons.IH [OF this Cons.prems(2) a(2) rest] show ?case .
qed

text \<open>
  Claim C1, as the source has it.  Start from a new manager and run operations
  that all return, where every byte count given or configured fits a signed
  64-bit number and every direct call of \<open>EvictBlocks\<close> is given a limit of at
  most \<open>maximum_memory\<close>.  Then \<open>current_memory\<close> is at most \<open>maximum_memory\<close> at
  the end.
\<close>
theorem budget_kept_by_returning_operations:
  assumes "unat (BLOCK_ALLOC_SIZE S) < 2 ^ 63" and "unat maximum_memory_p < 2 ^ 63"
    and "admissible_run S ops (BufferManager_new S tmp maximum_memory_p fs bm)"
    and "run S ops (BufferManager_new S tmp maximum_memory_p fs bm) = Some s'"
  shows "current_memory s' \<le> maximum_memory s'"
proof -
  have "budget_inv (BufferManager_new S tmp maximum_memory_p fs bm)"
    using assms(2)
    by (simp add: budget_inv_def BufferManager_new_def loaded_bytes_def usage_bounded_def
        readers_loaded_def lookup_def)
  from run_budget_inv [OF this assms(1,3,4)] show ?thesis
    by (simp add: budget_inv_def)
qed

lemma new_manager_reachable: "reachable small_Storage (new_manager tmp m)"
  unfolding new_manager_def by (rule reachable_new)

lemma pinned_block_reachable: "reachable small_Storage pinned_block"
proof -
  have "reachable small_Storage (snd (exec small_Storage (Op_Pin 0)
          (snd (exec small_Storage (Op_RegisterBlock 7) (new_manager [] 6)))))"
    by (intro reachable_exec new_manager_reachable)
  then show ?thesis
    by (simp add: pinned_block_def registered_block_def)
qed

theorem readers_imply_loaded_witness:
  "reachable small_Storage pinned_block \<and> readers_loaded pinned_block \<and>
   readers_loaded (snd (exec small_Storage (Op_Unpin 0) pinned_block))"
  using readers_imply_loaded [of small_Storage pinned_block "Op_Unpin 0"]
    pinned_block_reachable
  by simp

lemma RegisterBlock_idempotent_sequential_example:
  "reachable small_Storage (new_manager [] 6) \<and>
   7 < MAXIMUM_BLOCK small_Storage \<and>
   RegisterBlock small_Storage 7 (new_manager [] 6) = (0, registered_block) \<and>
   run_all small_Storage [Op_Pin 0, Op_Unpin 0] registered_block = unpinned_block \<and>
   lookup unpinned_block 0 \<noteq> None \<and>
   RegisterBlock small_Storage 7 unpinned_block = (0, unpinned_block)"
proof -
  have a: "7 < MAXIMUM_BLOCK small_Storage"
    by (simp add: small_Storage_def)
  have b: "RegisterBlock small_Storage 7 (new_manager [] 6) = (0, registered_block)"
    by (simp add: registered_block_def RegisterBlock_def new_manager_def BufferManager_new_def
        make_shared_def)
  have c: "run_all small_Storage [Op_Pin 0, Op_Unpin 0] registered_block = unpinned_block"
    by (simp add: unpinned_block_def pinned_block_def)
  have d: "lookup unpinned_block 0 \<noteq> None"
    by (simp add: unpinned_block_eq lookup_def)
  from RegisterBlock_idempotent_sequential
    [OF new_manager_reachable a b, of "[Op_Pin 0, Op_Unpin 0]"]
    a b c d new_manager_reachable [of "[]" 6]
  show ?thesis by simp
qed

text \<open>
  Claim C1, as the spec states it, fails: \<open>EvictBlocks\<close> takes its limit from the
  caller, so on a new manager with \<open>maximum_memory = 0\<close> the call
  \<open>EvictBlocks 1 1\<close> returns true and leaves \<open>current_memory = 1\<close>.
\<close>
theorem EvictBlocks_above_maximum_memory:
  "\<exists>s'. run small_Storage [Op_EvictBlocks 1 1] (new_manager [] 0) = Some s' \<and>
        current_memory s' = 1 \<and> maximum_memory s' = 0 \<and>
        \<not> current_memory s' \<le> maximum_memory s'"
  by (simp add: new_manager_def BufferManager_new_def EvictBlocks_def EvictBlocks_loop.simps
      discard_def)

lemma evicted_block_eq:
  "evicted_block =
     \<lparr>current_memory = 0, maximum_memory = 6, temp_directory = [],
      temp_directory_handle = None, queue = [], temporary_id = 1000, blocks = [7 \<mapsto> 0],
      heap = [Some \<lparr>readers = 0, block_id = 7, state = BLOCK_UNLOADED, buffer = None,
                    eviction_timestamp = 1, can_destroy = False, memory_usage = 6\<rparr>],
      files = Map.empty, block_manager = (\<lambda>_. [])\<rparr>"
  by (simp add: evicted_block_def unpinned_block_eq eval_defs)

theorem budget_kept_by_returning_operations_witness:
  "unat (BLOCK_ALLOC_SIZE small_Storage) < 2 ^ 63 \<and> unat (6 :: idx_t) < 2 ^ 63 \<and>
   admissible_run small_Storage [Op_RegisterBlock 7, Op_Pin 0, Op_Unpin 0, Op_EvictBlocks 0 0]
     (BufferManager_new small_Storage [] 6 Map.empty (\<lambda>_. [])) \<and>
   (\<exists>s'. run small_Storage [Op_RegisterBlock 7, Op_Pin 0, Op_Unpin 0, Op_EvictBlocks 0 0]
           (BufferManager_new small_Storage [] 6 Map.empty (\<lambda>_. [])) = Some s' \<and>
         current_memory s' = 0 \<and> maximum_memory s' = 6 \<and>
         current_memory s' \<le> maximum_memory s')"
proof -
  let ?ops = "[Op_RegisterBlock 7, Op_Pin 0, Op_Unpin 0, Op_EvictBlocks 0 0]"
  let ?s = "BufferManager_new small_Storage [] 6 Map.empty (\<lambda>_. [])"
  have n: "?s = new_manager [] 6"
    by (simp add: new_manager_def)
  have e1: "snd (RegisterBlock small_Storage 7 (new_manager [] 6)) = registered_block"
    by (simp add: registered_block_def)
  have e2: "Pin small_Storage 0 registered_block = (Inr (Some 0), pinned_block)"
    by (simp add: pinned_block_def registered_block_eq eval_defs)
  have e3: "Unpin 0 pinned_block = (Inr (), unpinned_block)"
    by (simp add: unpinned_block_def pinned_block_eq eval_defs)
  have e4: "EvictBlocks small_Storage 0 0 unpinned_block = (Inr True, evicted_block)"
    by (simp add: evicted_block_eq unpinned_block_eq eval_defs)
  have a: "unat (BLOCK_ALLOC_SIZE small_Storage) < 2 ^ 63"
    by (simp add: small_Storage_def)
  have b: "unat (6 :: idx_t) < 2 ^ 63" by simp
  have c: "admissible_run small_Storage ?ops ?s"
    by (simp add: n e1 e2 e3 admissible_def discard_def unpinned_block_eq)
  have d: "run small_Storage ?ops ?s = Some evicted_block"
    by (simp add: n e1 e2 e3 e4 discard_def)
  have e: "current_memory evicted_block = 0" "maximum_memory evicted_block = 6"
    by (simp_all add: evicted_block_eq)
  from budget_kept_by_returning_operations [OF a b c d] a b c d e
  show ?thesis by simp
qed

end
